theory Spec2Isabelle
  imports Main "HOL-Library.AList"
begin

section \<open>JavaScript values, errors and messages\<close>

text \<open>
  The node-fast client (lib/fast_client.js) is modelled as a state record that every
  method takes and returns.  JavaScript objects the client shares by reference (the
  request objects) live in an explicit heap, a list indexed by address; the tables
  \<open>fc_pending\<close> and \<open>fc_aborted\<close> hold addresses.
\<close>

datatype jsval =
    JNull
  | JBool bool
  | JNum int
  | JStr string
  | JArr "jsval list"
  | JObj "(string \<times> jsval) list"

text \<open>
  Errors are values of the verror package: a name, the short message given to the
  constructor, an optional cause and an info block.  \<open>new_VError\<close> is the
  constructor \<open>new VError({name, cause, info}, shortmessage)\<close>: a missing or
  empty name leaves the default name \<open>VError\<close>.  The full message of an error
  with a cause is its short message, a colon and a blank, and the cause's full message.
\<close>

datatype verror =
  VError (ve_name: string) (ve_shortmsg: string) (ve_cause: "verror option")
    (ve_info: "(string \<times> jsval) list")

definition new_VError ::
  "string option \<Rightarrow> verror option \<Rightarrow> (string \<times> jsval) list \<Rightarrow> string \<Rightarrow> verror" where
  "new_VError name cause info shortmessage =
     VError (case name of None \<Rightarrow> ''VError'' | Some n \<Rightarrow> if n = [] then ''VError'' else n)
       shortmessage cause info"

fun ve_message :: "verror \<Rightarrow> string" where
  "ve_message (VError n s None i) = s"
| "ve_message (VError n s (Some c) i) = s @ '': '' @ ve_message c"

text \<open>
  \<open>VError.info(err)\<close>: the info of the cause chain, innermost first, each
  error's own properties assigned over it.
\<close>

fun VError_info :: "verror \<Rightarrow> (string \<times> jsval) list" where
  "VError_info (VError n s None i) = fold (\<lambda>(k, v). AList.update k v) i []"
| "VError_info (VError n s (Some c) i) = fold (\<lambda>(k, v). AList.update k v) i (VError_info c)"

text \<open>JavaScript's \<open>a || b\<close> on a property that may be missing.\<close>

fun truthy :: "jsval \<Rightarrow> bool" where
  "truthy JNull = False"
| "truthy (JBool b) = b"
| "truthy (JNum n) = (n \<noteq> 0)"
| "truthy (JStr s) = (s \<noteq> [])"
| "truthy (JArr xs) = True"
| "truthy (JObj kvs) = True"

definition js_or :: "jsval option \<Rightarrow> jsval \<Rightarrow> jsval" where
  "js_or v d = (case v of None \<Rightarrow> d | Some x \<Rightarrow> if truthy x then x else d)"

text \<open>The \<open>%d\<close> conversion of a message id: its decimal digits.\<close>

fun decimal :: "nat \<Rightarrow> string" where
  "decimal n =
     (if n < 10 then [''0123456789'' ! n]
      else decimal (n div 10) @ [''0123456789'' ! (n mod 10)])"

declare decimal.simps [simp del]

text \<open>
  Modelled from the spec: lib/fast_protocol.js is not among the sources; the constant
  \<open>FP_MSGID_MAX\<close> it exports is the largest message id, \<open>2^31 - 1\<close>,
  and the three status codes are DATA = 1, END = 2 and ERROR = 3.
\<close>

definition FP_MSGID_MAX :: nat where
  "FP_MSGID_MAX = 2147483647"

text \<open>
  Modelled from the spec: a message the decoder, which is not among the sources, hands to
  \<open>onMessage\<close>.  The decoder emits only the three statuses, with \<open>data.d\<close> an array for DATA and END and an object carrying at
  least \<open>name\<close> and \<open>message\<close> for ERROR, so a message is a tagged
  variant over its status.
\<close>

record errdata =
  ed_name :: string
  ed_message :: string
  ed_info :: "jsval option"
  ed_context :: "jsval option"
  ed_ase_errors :: "jsval option"

datatype message =
    FP_STATUS_DATA nat "jsval list"
  | FP_STATUS_END nat "jsval list"
  | FP_STATUS_ERROR nat errdata

fun msgid :: "message \<Rightarrow> nat" where
  "msgid (FP_STATUS_DATA m ds) = m"
| "msgid (FP_STATUS_END m ds) = m"
| "msgid (FP_STATUS_ERROR m e) = m"

text \<open>The message \<open>rpc\<close> writes to the encoder: \<open>data.m.name\<close> and \<open>data.d\<close>.\<close>

record outmsg =
  om_msgid :: nat
  om_name :: string
  om_d :: "jsval list"

section \<open>Requests and the client state\<close>

text \<open>
  Modelled from the spec: lib/fast_client_request.js is not among the sources.  A
  \<open>FastRpcRequest\<close> is an object-mode stream of Node.  \<open>frq_stream\<close>
  records the calls the client makes on it, in order: \<open>Data v\<close> is
  \<open>push(v)\<close>, \<open>End\<close> is \<open>end()\<close> and
  \<open>Error e\<close> is \<open>emit('error', e)\<close>.  What the stream emits for
  these calls is \<open>emits\<close> below.  \<open>rq_error_listeners\<close> counts the
  listeners the caller has registered for the \<open>error\<close> event of the request.
  The \<open>frq_\<close> fields are the ones lib/fast_client.js reads and writes; a new
  request has no error, is not done, has counted nothing and has no listener.
\<close>

datatype event = Data jsval | End | Error "verror option"

record request =
  frq_msgid :: nat
  frq_rpcmethod :: string
  frq_rpcargs :: "jsval list"
  frq_ndata :: nat
  frq_nignored :: nat
  frq_error :: "verror option"
  frq_done_graceful :: bool
  frq_last :: "message option"
  frq_aborted :: bool
  frq_skip :: bool
  frq_stream :: "event list"
  rq_error_listeners :: nat

definition FastRpcRequest :: "nat \<Rightarrow> string \<Rightarrow> jsval list \<Rightarrow> request" where
  "FastRpcRequest m rpcmethod rpcargs =
     \<lparr>frq_msgid = m, frq_rpcmethod = rpcmethod, frq_rpcargs = rpcargs, frq_ndata = 0,
      frq_nignored = 0, frq_error = None, frq_done_graceful = False, frq_last = None,
      frq_aborted = False, frq_skip = False, frq_stream = [], rq_error_listeners = 0\<rparr>"

text \<open>
  The transport is an event emitter the client does not own: it has listeners for
  \<open>end\<close> and \<open>error\<close>, the client's two and whatever the caller
  registered.
\<close>

datatype listener = OnTransportEnd | OnTransportError | CallerListener nat

record transport =
  tr_end_listeners :: "listener list"
  tr_error_listeners :: "listener list"

text \<open>
  The client.  The \<open>fc_\<close> fields are those of the constructor.  The rest is the
  environment the methods act on: the heap of request objects, whether the transport is
  piped into the decoder and the encoder into the transport, the messages written to the
  encoder, the number of listeners the caller has registered for the client's own
  \<open>error\<close> event, the errors that event has delivered to them, and the
  callbacks queued with \<open>setImmediate\<close> (each emits the \<open>error\<close>
  event of the request at that address).
\<close>

record client =
  fc_transport :: transport
  fc_nrecent :: int
  fc_msgid :: nat
  fc_pending :: "(nat \<times> nat) list"
  fc_aborted :: "(nat \<times> nat) list"
  fc_nrpc_started :: nat
  fc_nrpc_done :: nat
  fc_recentrpc :: "nat list"
  fc_error :: "verror option"
  fc_nerrors :: nat
  fc_transport_onerr :: "listener option"
  fc_transport_onend :: "listener option"
  fc_detached :: bool
  fc_transport_ended :: bool
  heap :: "request list"
  decoder_piped :: bool
  encoder_piped :: bool
  written :: "outmsg list"
  error_listeners :: nat
  emitted :: "verror list"
  immediates :: "nat list"

text \<open>
  A method either returns or throws; a throw leaves the state as it was at that point.
  \<open>Unhandled e\<close> is what Node's event emitter throws when \<open>error\<close>
  is emitted with \<open>e\<close> and nobody listens for it.
\<close>

datatype js_error = AssertionError | TypeError | Unhandled "verror option"

type_synonym 'a js = "(js_error \<times> client) + 'a"

definition throw :: "js_error \<Rightarrow> client \<Rightarrow> 'a js" where
  "throw e c = Inl (e, c)"

definition and_then :: "'a js \<Rightarrow> ('a \<Rightarrow> 'b js) \<Rightarrow> 'b js" where
  "and_then r f = (case r of Inl x \<Rightarrow> Inl x | Inr v \<Rightarrow> f v)"

definition hasOwnProperty :: "(nat \<times> nat) list \<Rightarrow> nat \<Rightarrow> bool" where
  "hasOwnProperty t k = (map_of t k \<noteq> None)"

definition update_request :: "nat \<Rightarrow> (request \<Rightarrow> request) \<Rightarrow> client \<Rightarrow> client" where
  "update_request a f c = c\<lparr>heap := (heap c)[a := f (heap c ! a)]\<rparr>"

section \<open>The client's methods\<close>

text \<open>
  \<open>attach\<close>, called by the constructor: pipe the transport into the decoder and the
  encoder into the transport, keep the two listeners in \<open>fc_transport_onend\<close> and
  \<open>fc_transport_onerr\<close>, and register them.
\<close>

definition attach :: "client \<Rightarrow> client" where
  "attach c =
     (let c1 = c\<lparr>decoder_piped := True, encoder_piped := True\<rparr>;
          c2 = c1\<lparr>fc_transport_onend := Some OnTransportEnd\<rparr>;
          c3 = c2\<lparr>fc_transport_onerr := Some OnTransportError\<rparr>;
          t = fc_transport c3
      in c3\<lparr>fc_transport :=
            t\<lparr>tr_end_listeners := tr_end_listeners t @ [OnTransportEnd],
              tr_error_listeners := tr_error_listeners t @ [OnTransportError]\<rparr>\<rparr>)"

definition FastClient :: "int \<Rightarrow> transport \<Rightarrow> client" where
  "FastClient nRecentRequests tr =
     attach
       \<lparr>fc_transport = tr, fc_nrecent = nRecentRequests, fc_msgid = 0, fc_pending = [],
        fc_aborted = [], fc_nrpc_started = 0, fc_nrpc_done = 0, fc_recentrpc = [],
        fc_error = None, fc_nerrors = 0, fc_transport_onerr = None,
        fc_transport_onend = None, fc_detached = False, fc_transport_ended = False,
        heap = [], decoder_piped = False, encoder_piped = False, written = [],
        error_listeners = 0, emitted = [], immediates = []\<rparr>"

text \<open>\<open>allocMessageId\<close>: pre-increment, and back to 1 at \<open>FP_MSGID_MAX\<close>.\<close>

definition allocMessageId :: "client \<Rightarrow> nat \<times> client" where
  "allocMessageId c =
     (let c1 = c\<lparr>fc_msgid := fc_msgid c + 1\<rparr>;
          c2 = (if fc_msgid c1 \<ge> FP_MSGID_MAX then c1\<lparr>fc_msgid := 1\<rparr> else c1)
      in (fc_msgid c2, c2))"

definition requestIsPending :: "request \<Rightarrow> bool" where
  "requestIsPending r = (\<not> frq_done_graceful r \<and> frq_error r = None)"

text \<open>
  \<open>requestComplete\<close>: the request must be done and be the one the pending table
  holds under its id; delete it there, count it, and push it on the recent requests,
  shifting the oldest out when they are more than \<open>fc_nrecent\<close>.
\<close>

definition push_recent :: "int \<Rightarrow> nat list \<Rightarrow> nat \<Rightarrow> nat list" where
  "push_recent nrecent recent a =
     (let pushed = recent @ [a]
      in if int (length pushed) > nrecent then tl pushed else pushed)"

definition requestComplete :: "client \<Rightarrow> nat \<Rightarrow> client js" where
  "requestComplete c a =
     (let request = heap c ! a; m = frq_msgid request in
      if requestIsPending request then throw AssertionError c
      else if map_of (fc_pending c) m \<noteq> Some a then throw AssertionError c
      else
        let c1 = c\<lparr>fc_pending := AList.delete m (fc_pending c)\<rparr>;
            c2 = c1\<lparr>fc_nrpc_done := fc_nrpc_done c1 + 1\<rparr>
        in Inr (c2\<lparr>fc_recentrpc := push_recent (fc_nrecent c2) (fc_recentrpc c2) a\<rparr>))"

text \<open>
  \<open>requestFail\<close>: the request's error is a new VError whose name is the name of
  the given error, whose cause is that error, with \<open>rpcMsgid\<close> and
  \<open>rpcMethod\<close> as info and no message of its own.  The request is completed, and
  its \<open>error\<close> event is deferred with \<open>setImmediate\<close>.
\<close>

definition requestFail :: "client \<Rightarrow> nat \<Rightarrow> verror \<Rightarrow> client js" where
  "requestFail c a error =
     (let request = heap c ! a in
      if frq_error request \<noteq> None then throw AssertionError c
      else
        let e = new_VError (Some (ve_name error)) (Some error)
                  [(''rpcMsgid'', JNum (int (frq_msgid request))),
                   (''rpcMethod'', JStr (frq_rpcmethod request))] [];
            c1 = update_request a (\<lambda>r. r\<lparr>frq_error := Some e\<rparr>) c
        in and_then (requestComplete c1 a)
             (\<lambda>c2. Inr (c2\<lparr>immediates := immediates c2 @ [a]\<rparr>)))"

text \<open>
  \<open>requestAbort\<close>: nothing for a request that is no longer pending; otherwise
  mark it aborted, enter it in the aborted table and fail it with a
  \<open>RequestAbortedError\<close> whose cause is the given error, if any.
\<close>

definition requestAbort :: "client \<Rightarrow> nat \<Rightarrow> verror option \<Rightarrow> client js" where
  "requestAbort c a error =
     (let request = heap c ! a in
      if \<not> requestIsPending request then Inr c
      else
        let m = frq_msgid request in
        if map_of (fc_pending c) m \<noteq> Some a then throw AssertionError c
        else
          let c1 = update_request a (\<lambda>r. r\<lparr>frq_aborted := True\<rparr>) c;
              c2 = c1\<lparr>fc_aborted := AList.update m a (fc_aborted c1)\<rparr>
          in requestFail c2 a
               (new_VError (Some ''RequestAbortedError'') error [] ''request aborted''))"

text \<open>
  \<open>requestAbortAll\<close>: \<open>for (msgid in this.fc_pending)\<close> visits the
  integer keys in ascending order and skips a key deleted before it is reached.
\<close>

fun abort_each :: "nat list \<Rightarrow> verror \<Rightarrow> client \<Rightarrow> client js" where
  "abort_each [] error c = Inr c"
| "abort_each (k # ks) error c =
     (case map_of (fc_pending c) k of
        None \<Rightarrow> abort_each ks error c
      | Some a \<Rightarrow>
          if \<not> requestIsPending (heap c ! a) then throw AssertionError c
          else
            (case requestAbort c a (Some error) of
               Inl x \<Rightarrow> Inl x
             | Inr c1 \<Rightarrow>
                 if hasOwnProperty (fc_pending c1) k then throw AssertionError c1
                 else abort_each ks error c1))"

definition requestAbortAll :: "client \<Rightarrow> verror \<Rightarrow> client js" where
  "requestAbortAll c error = abort_each (sort (map fst (fc_pending c))) error c"

text \<open>
  \<open>this.emit('error', err)\<close> on the client, an event emitter of Node: the error
  goes to the listeners, and is thrown when there is none.
\<close>

definition emit_error :: "client \<Rightarrow> verror \<Rightarrow> client js" where
  "emit_error c err =
     (if error_listeners c = 0 then throw (Unhandled (Some err)) c
      else Inr (c\<lparr>emitted := emitted c @ [err]\<rparr>))"

text \<open>
  \<open>fatalError\<close>: count the error; the first one is recorded, emitted as the
  client's \<open>error\<close> event and then given to \<open>requestAbortAll\<close>; a
  later one is only counted.
\<close>

definition fatalError :: "client \<Rightarrow> verror \<Rightarrow> client js" where
  "fatalError c err =
     (let c1 = c\<lparr>fc_nerrors := fc_nerrors c + 1\<rparr> in
      if fc_error c1 \<noteq> None then Inr c1
      else
        let c2 = c1\<lparr>fc_error := Some err\<rparr>
        in and_then (emit_error c2 err) (\<lambda>c3. requestAbortAll c3 err))"

text \<open>
  \<open>rpc\<close>: allocate the id, create the request, enter it in the pending table and
  either fail it at once (the client is detached or its transport has ended) or write
  the request message.  The new object belongs to the heap from the point where the
  source first stores a reference to it.  The result is the state and the request.
\<close>

definition rpc :: "client \<Rightarrow> string \<Rightarrow> jsval list \<Rightarrow> (client \<times> nat) js" where
  "rpc c rpcmethod rpcargs =
     (let (m, c1) = allocMessageId c;
          request = FastRpcRequest m rpcmethod rpcargs;
          a = length (heap c1)
      in if hasOwnProperty (fc_pending c1) m then throw AssertionError c1
         else
           let c2 = c1\<lparr>heap := heap c1 @ [request]\<rparr>;
               c3 = c2\<lparr>fc_pending := AList.update m a (fc_pending c2)\<rparr>;
               c4 = c3\<lparr>fc_nrpc_started := fc_nrpc_started c3 + 1\<rparr>
           in if fc_detached c4 \<or> fc_transport_ended c4 then
                let c5 = update_request a (\<lambda>r. r\<lparr>frq_skip := True\<rparr>) c4
                in and_then
                     (requestFail c5 a
                        (new_VError (Some ''TransportError'') None [] ''transport detached''))
                     (\<lambda>c6. Inr (c6, a))
              else
                Inr (c4\<lparr>written := written c4 @
                       [\<lparr>om_msgid = m, om_name = rpcmethod, om_d = rpcargs\<rparr>]\<rparr>, a))"

text \<open>
  Modelled from the spec: \<open>request.abort()\<close> of lib/fast_client_request.js,
  which is not among the sources, aborts the request at its client, with no cause.
\<close>

definition abort :: "client \<Rightarrow> nat \<Rightarrow> client js" where
  "abort c a = requestAbort c a None"

text \<open>
  Modelled from the spec: \<open>request.push(d)\<close>, of Node's readable stream.  A
  pushed \<open>null\<close> is the end of the stream, and so is \<open>end()\<close>; a
  value pushed after the end makes the stream emit the error \<open>stream.push() after
  EOF\<close>, which is thrown out of \<open>push\<close> when the request has no listener
  for \<open>error\<close>.  \<open>forEach_push\<close> is
  \<open>message.data.d.forEach(function (d) { request.push(d); })\<close>.
\<close>

definition ended :: "event list \<Rightarrow> bool" where
  "ended calls = (Data JNull \<in> set calls \<or> End \<in> set calls)"

definition push_after_EOF :: verror where
  "push_after_EOF = new_VError (Some ''Error'') None [] ''stream.push() after EOF''"

definition push :: "client \<Rightarrow> nat \<Rightarrow> jsval \<Rightarrow> client js" where
  "push c a d =
     (let request = heap c ! a;
          c1 = update_request a (\<lambda>r. r\<lparr>frq_stream := frq_stream r @ [Data d]\<rparr>) c
      in if d \<noteq> JNull \<and> ended (frq_stream request) \<and> rq_error_listeners request = 0
         then throw (Unhandled (Some push_after_EOF)) c1
         else Inr c1)"

fun forEach_push :: "jsval list \<Rightarrow> nat \<Rightarrow> client \<Rightarrow> client js" where
  "forEach_push [] a c = Inr c"
| "forEach_push (d # ds) a c = and_then (push c a d) (forEach_push ds a)"

text \<open>
  \<open>onMessage\<close>.  The request is looked up in the pending table, then in the
  aborted table; a message for neither is a fatal error.  The message becomes the request's
  \<open>frq_last\<close>.  An END cleans up an aborted request or completes and ends a
  pending one.  Any other message for an aborted request is counted and ignored.  A DATA
  pushes each element of \<open>data.d\<close>; an ERROR fails the request with a
  \<open>server error\<close> VError whose cause carries the server's name and message.
\<close>

definition onMessage :: "client \<Rightarrow> message \<Rightarrow> client js" where
  "onMessage c message =
     (let found =
        (case map_of (fc_pending c) (msgid message) of
           Some a \<Rightarrow> Some (a, False)
         | None \<Rightarrow>
            (case map_of (fc_aborted c) (msgid message) of
               Some a \<Rightarrow> Some (a, True)
             | None \<Rightarrow> None))
      in case found of
        None \<Rightarrow>
          fatalError c
            (new_VError (Some ''FastProtocolError'') None
               [(''fast_reason'', JStr ''unknown_msgid''),
                (''fast_msgid'', JNum (int (msgid message)))]
               (''fast protocol: received message with unknown msgid '' @
                  decimal (msgid message)))
      | Some (a, aborted) \<Rightarrow>
          if frq_aborted (heap c ! a) \<noteq> aborted then throw AssertionError c
          else if frq_done_graceful (heap c ! a) then throw AssertionError c
          else
            let c1 = update_request a (\<lambda>r. r\<lparr>frq_last := Some message\<rparr>) c in
            (case message of
               FP_STATUS_END m ds \<Rightarrow>
                 if aborted then
                   Inr (c1\<lparr>fc_aborted :=
                          AList.delete (frq_msgid (heap c1 ! a)) (fc_aborted c1)\<rparr>)
                 else
                   let c2 = update_request a (\<lambda>r. r\<lparr>frq_done_graceful := True\<rparr>) c1
                   in and_then (requestComplete c2 a)
                        (\<lambda>c3. Inr (update_request a
                                     (\<lambda>r. r\<lparr>frq_stream := frq_stream r @ [End]\<rparr>) c3))
             | FP_STATUS_DATA m ds \<Rightarrow>
                 if aborted then
                   Inr (update_request a (\<lambda>r. r\<lparr>frq_nignored := frq_nignored r + 1\<rparr>) c1)
                 else if frq_error (heap c1 ! a) \<noteq> None then throw AssertionError c1
                 else
                   forEach_push ds a
                     (update_request a (\<lambda>r. r\<lparr>frq_ndata := frq_ndata r + 1\<rparr>) c1)
             | FP_STATUS_ERROR m d \<Rightarrow>
                 if aborted then
                   Inr (update_request a (\<lambda>r. r\<lparr>frq_nignored := frq_nignored r + 1\<rparr>) c1)
                 else if frq_error (heap c1 ! a) \<noteq> None then throw AssertionError c1
                 else
                   let request = heap c1 ! a;
                       cause = new_VError (Some (ed_name d)) None
                         [(''rpcMsgid'', JNum (int (frq_msgid request))),
                          (''rpcMethod'', JStr (frq_rpcmethod request)),
                          (''context'', js_or (ed_context d) (JObj [])),
                          (''errors'', js_or (ed_ase_errors d) (JArr []))]
                         (ed_message d);
                       c2 = update_request a (\<lambda>r. r\<lparr>frq_done_graceful := True\<rparr>) c1
                   in requestFail c2 a (new_VError None (Some cause) [] ''server error'')))"

text \<open>The two listeners \<open>attach\<close> registers on the transport, and the decoder's error.\<close>

definition onTransportEnd :: "client \<Rightarrow> client js" where
  "onTransportEnd c =
     (let c1 = c\<lparr>fc_transport_ended := True\<rparr> in
      if fc_nrpc_started c1 > fc_nrpc_done c1 then
        fatalError c1
          (new_VError (Some ''FastProtocolError'') None []
             ''unexpected end of transport stream'')
      else Inr c1)"

definition onTransportError :: "client \<Rightarrow> verror \<Rightarrow> client js" where
  "onTransportError c err =
     fatalError c
       (new_VError (Some ''TransportError'') (Some err) [] ''unexpected error on transport'')"

definition onDecoderError :: "client \<Rightarrow> verror \<Rightarrow> client js" where
  "onDecoderError c err = fatalError c err"

text \<open>
  A callback queued with \<open>setImmediate\<close> runs: the request emits
  \<open>error\<close> with whatever its \<open>frq_error\<close> holds then.
  \<open>run_immediate\<close> is the state the callback leaves, and
  \<open>run_callback\<close> the callback as the event loop sees it: it throws the error
  when the request has no listener for it.
\<close>

definition run_immediate :: "client \<Rightarrow> client" where
  "run_immediate c =
     (case immediates c of
        [] \<Rightarrow> c
      | a # rest \<Rightarrow>
          update_request a (\<lambda>r. r\<lparr>frq_stream := frq_stream r @ [Error (frq_error r)]\<rparr>)
            (c\<lparr>immediates := rest\<rparr>))"

definition run_callback :: "client \<Rightarrow> client js" where
  "run_callback c =
     (case immediates c of
        [] \<Rightarrow> Inr c
      | a # rest \<Rightarrow>
          if rq_error_listeners (heap c ! a) = 0
          then throw (Unhandled (frq_error (heap c ! a))) (run_immediate c)
          else Inr (run_immediate c))"

text \<open>
  \<open>detach\<close>.  \<open>removeListener\<close> is the event emitter's: it throws a
  TypeError when its listener argument is not a function, and otherwise removes the most
  recently added instance of the listener.  The second call passes
  \<open>this.fc_transport_onerror\<close>, a property no code assigns (the constructor and
  \<open>attach\<close> set \<open>fc_transport_onerr\<close>), so what it reads is
  \<open>undefined\<close>.
\<close>

definition removeListener :: "listener list \<Rightarrow> listener option \<Rightarrow> js_error + listener list" where
  "removeListener ls l =
     (case l of None \<Rightarrow> Inl TypeError | Some f \<Rightarrow> Inr (rev (remove1 f (rev ls))))"

definition fc_transport_onerror :: "client \<Rightarrow> listener option" where
  "fc_transport_onerror c = None"

definition detach :: "client \<Rightarrow> client js" where
  "detach c =
     (if fc_detached c then Inr c
      else
        let c1 = c\<lparr>fc_detached := True\<rparr> in
        case removeListener (tr_end_listeners (fc_transport c1)) (fc_transport_onend c1) of
          Inl e \<Rightarrow> throw e c1
        | Inr ls \<Rightarrow>
            let c2 = c1\<lparr>fc_transport := (fc_transport c1)\<lparr>tr_end_listeners := ls\<rparr>\<rparr> in
            (case removeListener (tr_error_listeners (fc_transport c2))
                    (fc_transport_onerror c2) of
               Inl e \<Rightarrow> throw e c2
             | Inr ls' \<Rightarrow>
                 let c3 = c2\<lparr>fc_transport :=
                            (fc_transport c2)\<lparr>tr_error_listeners := ls'\<rparr>\<rparr>;
                     c4 = c3\<lparr>decoder_piped := False\<rparr>;
                     c5 = c4\<lparr>encoder_piped := False\<rparr>
                 in requestAbortAll c5
                      (new_VError None None [] ''client detached from transport'')))"

text \<open>The message ids a client hands out, one allocation after another.\<close>

fun alloc_times :: "nat \<Rightarrow> client \<Rightarrow> client" where
  "alloc_times 0 c = c"
| "alloc_times (Suc n) c = snd (allocMessageId (alloc_times n c))"

definition nth_msgid :: "client \<Rightarrow> nat \<Rightarrow> nat" where
  "nth_msgid c n = fst (allocMessageId (alloc_times (n - 1) c))"

section \<open>Runs of the client\<close>

text \<open>
  What happens to a client from outside: the caller's calls (\<open>OnError\<close> is
  \<open>client.on('error', listener)\<close> and \<open>OnRequestError a\<close> is
  \<open>request.on('error', listener)\<close> on the request at address \<open>a\<close>),
  the decoder's and the transport's events, and the event loop running the next deferred
  callback.  The transport calls the listeners that are registered on it when it emits
  the event, so the client's handler runs only while its listener is in the list.
\<close>

datatype action =
    OnError
  | Rpc string "jsval list"
  | OnRequestError nat
  | Abort nat
  | Detach
  | Message message
  | DecoderError verror
  | TransportEnd
  | TransportError verror
  | Immediate

definition perform :: "client \<Rightarrow> action \<Rightarrow> client js" where
  "perform c act =
     (case act of
        OnError \<Rightarrow> Inr (c\<lparr>error_listeners := error_listeners c + 1\<rparr>)
      | Rpc m args \<Rightarrow> and_then (rpc c m args) (\<lambda>(c', a). Inr c')
      | OnRequestError a \<Rightarrow>
          Inr (update_request a
                 (\<lambda>r. r\<lparr>rq_error_listeners := rq_error_listeners r + 1\<rparr>) c)
      | Abort a \<Rightarrow> abort c a
      | Detach \<Rightarrow> detach c
      | Message msg \<Rightarrow> onMessage c msg
      | DecoderError e \<Rightarrow> onDecoderError c e
      | TransportEnd \<Rightarrow>
          if OnTransportEnd \<in> set (tr_end_listeners (fc_transport c))
          then onTransportEnd c else Inr c
      | TransportError e \<Rightarrow>
          if OnTransportError \<in> set (tr_error_listeners (fc_transport c))
          then onTransportError c e else Inr c
      | Immediate \<Rightarrow> run_callback c)"

text \<open>
  A sequence of actions, stopping at the first that throws, and the two outcomes of a
  call: the state it returned or the exception it threw with the state at the throw.
\<close>

fun perform_all :: "client \<Rightarrow> action list \<Rightarrow> client js" where
  "perform_all c [] = Inr c"
| "perform_all c (x # xs) =
     (case perform c x of Inl e \<Rightarrow> Inl e | Inr c' \<Rightarrow> perform_all c' xs)"

definition returned :: "client js \<Rightarrow> client option" where
  "returned r = (case r of Inl x \<Rightarrow> None | Inr c \<Rightarrow> Some c)"

definition thrown :: "client js \<Rightarrow> (js_error \<times> client) option" where
  "thrown r = (case r of Inl x \<Rightarrow> Some x | Inr c \<Rightarrow> None)"

text \<open>
  Modelled from the spec: the events an object-mode stream of Node emits for the calls
  made on it.  A pushed value is a \<open>data\<close> event.  The first pushed
  \<open>null\<close> or \<open>end()\<close> ends the stream, which emits
  \<open>end\<close>; a later one does nothing.  A value pushed after the end is the error
  event \<open>stream.push() after EOF\<close>.  \<open>emit('error', e)\<close> is an
  error event whatever the state of the stream.
\<close>

fun emits_from :: "bool \<Rightarrow> event list \<Rightarrow> event list" where
  "emits_from e [] = []"
| "emits_from e (Data d # calls) =
     (if d = JNull then (if e then [] else [End]) @ emits_from True calls
      else if e then Error (Some push_after_EOF) # emits_from e calls
      else Data d # emits_from e calls)"
| "emits_from e (End # calls) = (if e then [] else [End]) @ emits_from True calls"
| "emits_from e (Error x # calls) = Error x # emits_from e calls"

definition emits :: "event list \<Rightarrow> event list" where
  "emits calls = emits_from False calls"

text \<open>The events a request's stream has emitted, and the errors among them.\<close>

definition stream_of :: "client js \<Rightarrow> nat \<Rightarrow> event list" where
  "stream_of r a =
     (case r of Inl x \<Rightarrow> [] | Inr c \<Rightarrow> emits (frq_stream (heap c ! a)))"

fun event_name :: "event \<Rightarrow> string" where
  "event_name (Data v) = ''data''"
| "event_name End = ''end''"
| "event_name (Error e) = ''error''"

fun delivered_error :: "event \<Rightarrow> verror list" where
  "delivered_error (Error (Some e)) = [e]"
| "delivered_error ev = []"

definition errors_of :: "client js \<Rightarrow> nat \<Rightarrow> verror list" where
  "errors_of r a = concat (map delivered_error (stream_of r a))"

text \<open>
  A transport nobody listens to yet, and the test suite's dummy value and server error.
\<close>

definition bare_transport :: transport where
  "bare_transport = \<lparr>tr_end_listeners = [], tr_error_listeners = []\<rparr>"

definition dummyValue :: jsval where
  "dummyValue = JObj [(''movies'', JArr [JStr ''red dawn'', JStr ''wargames''])]"

definition dummyResponseError :: errdata where
  "dummyResponseError =
     \<lparr>ed_name = ''DummyError'', ed_message = ''dummy error message'',
      ed_info = Some (JObj [(''dummyProp'', JStr ''dummyVal'')]),
      ed_context = None, ed_ase_errors = None\<rparr>"

lemmas method_defs =
  perform_def returned_def thrown_def stream_of_def errors_of_def bare_transport_def
  dummyValue_def dummyResponseError_def FastClient_def attach_def
  rpc_def allocMessageId_def FP_MSGID_MAX_def hasOwnProperty_def FastRpcRequest_def
  onMessage_def requestComplete_def push_recent_def requestFail_def requestAbort_def
  requestAbortAll_def
  fatalError_def onTransportEnd_def onTransportError_def onDecoderError_def detach_def
  removeListener_def fc_transport_onerror_def run_immediate_def abort_def
  update_request_def requestIsPending_def new_VError_def throw_def and_then_def js_or_def
  emit_error_def push_def ended_def push_after_EOF_def run_callback_def emits_def
  Let_def decimal.simps

section \<open>The invariant of the client\<close>

text \<open>
  The client makes any number of \<open>push\<close> calls on a request's stream and then
  at most one terminal call, \<open>end()\<close> or \<open>emit('error', e)\<close>. The
  error of a failed request is emitted by a deferred callback, so while the callback waits
  in \<open>immediates\<close> the terminal call is scheduled: \<open>scheduled c a\<close>
  is what the waiting callbacks of the request at address \<open>a\<close> will emit.
\<close>

fun is_data :: "event \<Rightarrow> bool" where
  "is_data (Data v) = True"
| "is_data End = False"
| "is_data (Error e) = False"

definition no_terminal :: "event list \<Rightarrow> bool" where
  "no_terminal evs = list_all is_data evs"

definition one_terminal_last :: "event list \<Rightarrow> bool" where
  "one_terminal_last evs = (evs \<noteq> [] \<and> \<not> is_data (last evs) \<and> list_all is_data (butlast evs))"

definition scheduled :: "client \<Rightarrow> nat \<Rightarrow> event list" where
  "scheduled c a = replicate (count_list (immediates c) a) (Error (frq_error (heap c ! a)))"

text \<open>
  The stream of one request: no terminal call and no callback while the request is
  pending; once it is finished, exactly one terminal call, made or scheduled, after all
  the pushes.
\<close>

definition stream_ok :: "client \<Rightarrow> nat \<Rightarrow> bool" where
  "stream_ok c a \<longleftrightarrow>
     (requestIsPending (heap c ! a) \<longrightarrow>
        no_terminal (frq_stream (heap c ! a)) \<and> count_list (immediates c) a = 0)
     \<and> (\<not> requestIsPending (heap c ! a) \<longrightarrow>
        one_terminal_last (frq_stream (heap c ! a) @ scheduled c a))"

text \<open>
  The tables and the counters. Every entry of \<open>fc_pending\<close> is a pending,
  unaborted request filed under its own id; every entry of \<open>fc_aborted\<close> is an
  aborted request with its error; every pending request of the heap is in
  \<open>fc_pending\<close>; and the requests started are the requests done and the pending
  ones.
\<close>

definition pending_ok :: "client \<Rightarrow> bool" where
  "pending_ok c \<longleftrightarrow>
     (\<forall>k a. map_of (fc_pending c) k = Some a \<longrightarrow>
        a < length (heap c) \<and> frq_msgid (heap c ! a) = k \<and> requestIsPending (heap c ! a)
        \<and> \<not> frq_aborted (heap c ! a))"

definition aborted_ok :: "client \<Rightarrow> bool" where
  "aborted_ok c \<longleftrightarrow>
     (\<forall>k a. map_of (fc_aborted c) k = Some a \<longrightarrow>
        a < length (heap c) \<and> frq_msgid (heap c ! a) = k \<and> frq_aborted (heap c ! a)
        \<and> \<not> frq_done_graceful (heap c ! a) \<and> frq_error (heap c ! a) \<noteq> None)"

definition listed_ok :: "client \<Rightarrow> bool" where
  "listed_ok c \<longleftrightarrow>
     (\<forall>a < length (heap c). requestIsPending (heap c ! a) \<longrightarrow>
        map_of (fc_pending c) (frq_msgid (heap c ! a)) = Some a)"

definition counters_ok :: "client \<Rightarrow> bool" where
  "counters_ok c \<longleftrightarrow>
     distinct (map fst (fc_pending c))
     \<and> fc_nrpc_started c = fc_nrpc_done c + length (fc_pending c)"

text \<open>
  Every deferred callback is for a request of the heap, and every stream is well formed.
\<close>

definition streams_ok :: "client \<Rightarrow> bool" where
  "streams_ok c \<longleftrightarrow>
     (\<forall>a \<in> set (immediates c). a < length (heap c))
     \<and> (\<forall>a < length (heap c). stream_ok c a)"

definition inv :: "client \<Rightarrow> bool" where
  "inv c \<longleftrightarrow> pending_ok c \<and> aborted_ok c \<and> listed_ok c \<and> counters_ok c \<and> streams_ok c"

section \<open>The effect of the methods\<close>

text \<open>
  What the methods do to a request, as values: the request after \<open>requestAbort\<close>
  with the given cause; the state after \<open>requestAbortAll\<close> has aborted the
  pending requests with ids in \<open>K\<close>; the error \<open>onMessage\<close> builds
  from an ERROR message; and the error \<open>requestFail\<close> delivers for a given
  cause.
\<close>

definition aborted_request :: "verror option \<Rightarrow> request \<Rightarrow> request" where
  "aborted_request cause r =
     r\<lparr>frq_aborted := True,
       frq_error := Some
         (new_VError (Some ''RequestAbortedError'')
            (Some (new_VError (Some ''RequestAbortedError'') cause [] ''request aborted''))
            [(''rpcMsgid'', JNum (int (frq_msgid r))), (''rpcMethod'', JStr (frq_rpcmethod r))]
            [])\<rparr>"

definition aborted_all :: "nat set \<Rightarrow> verror \<Rightarrow> client \<Rightarrow> client \<Rightarrow> bool" where
  "aborted_all K err c c' \<longleftrightarrow>
     fc_error c' = fc_error c \<and> emitted c' = emitted c \<and> fc_nerrors c' = fc_nerrors c
     \<and> length (heap c') = length (heap c)
     \<and> (\<forall>k. map_of (fc_pending c') k = (if k \<in> K then None else map_of (fc_pending c) k))
     \<and> (\<forall>b < length (heap c). heap c' ! b =
           (if \<exists>k\<in>K. map_of (fc_pending c) k = Some b
            then aborted_request (Some err) (heap c ! b) else heap c ! b))
     \<and> (\<forall>b. count_list (immediates c') b =
           count_list (immediates c) b + (if \<exists>k\<in>K. map_of (fc_pending c) k = Some b then 1 else 0))
     \<and> (\<forall>k. map_of (fc_aborted c') k =
           (if k \<in> K \<and> map_of (fc_pending c) k \<noteq> None then map_of (fc_pending c) k
            else map_of (fc_aborted c) k))"

definition server_error :: "request \<Rightarrow> errdata \<Rightarrow> verror" where
  "server_error r d =
     new_VError None
       (Some (new_VError (Some (ed_name d)) None
          [(''rpcMsgid'', JNum (int (frq_msgid r))),
           (''rpcMethod'', JStr (frq_rpcmethod r)),
           (''context'', js_or (ed_context d) (JObj [])),
           (''errors'', js_or (ed_ase_errors d) (JArr []))]
          (ed_message d)))
       [] ''server error''"

definition request_error :: "request \<Rightarrow> verror \<Rightarrow> verror" where
  "request_error r err =
     new_VError (Some (ve_name err)) (Some err)
       [(''rpcMsgid'', JNum (int (frq_msgid r))), (''rpcMethod'', JStr (frq_rpcmethod r))] []"

section \<open>Reachable states\<close>

text \<open>
  The state a call leaves behind, whether it returned or threw. A reachable state is a new
  client after any number of actions; \<open>Abort a\<close> and
  \<open>OnRequestError a\<close> are calls on a request that \<open>rpc\<close> returned,
  so \<open>a\<close> is an address of the heap.  \<open>run c acts\<close> is the state
  after the actions \<open>acts\<close>, one after the other.
\<close>

definition state_after :: "client js \<Rightarrow> client" where
  "state_after r = (case r of Inl (e, c) \<Rightarrow> c | Inr c \<Rightarrow> c)"

fun allowed :: "client \<Rightarrow> action \<Rightarrow> bool" where
  "allowed c (Abort a) = (a < length (heap c))"
| "allowed c (OnRequestError a) = (a < length (heap c))"
| "allowed c act = True"

inductive reach :: "client \<Rightarrow> bool" where
  start: "reach (FastClient n tr)"
| step: "reach c \<Longrightarrow> allowed c act \<Longrightarrow> reach (state_after (perform c act))"

fun run :: "client \<Rightarrow> action list \<Rightarrow> client" where
  "run c [] = c"
| "run c (act # acts) = run (state_after (perform c act)) acts"

fun allowed_all :: "client \<Rightarrow> action list \<Rightarrow> bool" where
  "allowed_all c [] = True"
| "allowed_all c (act # acts) =
     (allowed c act \<and> allowed_all (state_after (perform c act)) acts)"

text \<open>
  The protocol errors of \<open>onTransportEnd\<close> and of a message with an unknown id.
\<close>

definition unexpected_end :: verror where
  "unexpected_end =
     new_VError (Some ''FastProtocolError'') None [] ''unexpected end of transport stream''"

definition unknown_msgid_error :: "nat \<Rightarrow> verror" where
  "unknown_msgid_error m =
     new_VError (Some ''FastProtocolError'') None
       [(''fast_reason'', JStr ''unknown_msgid''), (''fast_msgid'', JNum (int m))]
       (''fast protocol: received message with unknown msgid '' @ decimal m)"

text \<open>
  The start of every case of the test suite: the caller listens for the client's
  \<open>error\<close>, issues one request and listens for its \<open>error\<close>.
  \<open>one_request\<close> is the client then, with the request pending under id 1 at
  address 0; \<open>unheard_request\<close> is a client with one pending request and no
  listener at all.
\<close>

definition test_setup :: "action list" where
  "test_setup = [OnError, Rpc ''testmethod'' [], OnRequestError 0]"

definition one_request :: client where
  "one_request = run (FastClient 10 bare_transport) test_setup"

definition unheard_request :: client where
  "unheard_request = run (FastClient 10 bare_transport) [Rpc ''testmethod'' []]"

text \<open>
  A client that has recorded a fatal error, for an END with the unknown id 47, and has a
  request pending: \<open>rpc\<close> does not look at \<open>fc_error\<close>.
\<close>

definition after_fatal_error :: client where
  "after_fatal_error =
     run (FastClient 10 bare_transport)
       [OnError, Message (FP_STATUS_END 47 []), Rpc ''testmethod'' [], OnRequestError 0]"

text \<open>
  The messages for the id \<open>k\<close> go to the aborted request at address
  \<open>a\<close>: the aborted table holds it under \<open>k\<close>, and the pending
  table, which \<open>onMessage\<close> looks at first, has no request under \<open>k\<close>.
  \<open>ignored x r\<close> is what discarding the message \<open>x\<close> leaves in the
  request: the message as its last one, and one more in \<open>frq_nignored\<close>.
\<close>

definition discarding :: "client \<Rightarrow> nat \<Rightarrow> nat \<Rightarrow> bool" where
  "discarding c k a \<longleftrightarrow> map_of (fc_aborted c) k = Some a \<and> map_of (fc_pending c) k = None"

fun is_END :: "message \<Rightarrow> bool" where
  "is_END (FP_STATUS_END m ds) = True"
| "is_END (FP_STATUS_DATA m ds) = False"
| "is_END (FP_STATUS_ERROR m d) = False"

definition ignored :: "message \<Rightarrow> request \<Rightarrow> request" where
  "ignored x r = r\<lparr>frq_last := Some x, frq_nignored := Suc (frq_nignored r)\<rparr>"

text \<open>
  The event loop runs every deferred callback that waits. Between two states of a run the
  heap only grows and every stream only gets longer. \<open>ended_request\<close> is a
  client whose one request has received a DATA and then an END.
\<close>

definition drain :: "client \<Rightarrow> client" where
  "drain c = (run_immediate ^^ length (immediates c)) c"

definition streams_grow :: "client \<Rightarrow> client \<Rightarrow> bool" where
  "streams_grow c c' \<longleftrightarrow>
     length (heap c) \<le> length (heap c')
     \<and> (\<forall>a < length (heap c). \<exists>ys. frq_stream (heap c' ! a) = frq_stream (heap c ! a) @ ys)"

definition ended_request :: client where
  "ended_request =
     run one_request
       [Message (FP_STATUS_DATA 1 [JStr ''string_0'']), Message (FP_STATUS_END 1 [])]"

section \<open>Message id allocation\<close>

lemma fc_msgid_alloc_times:
  "fc_msgid (alloc_times (Suc n) (FastClient k tr)) = n mod 2147483646 + 1"
proof (induction n)
  case 0
  show ?case
    by (simp add: allocMessageId_def FastClient_def attach_def Let_def FP_MSGID_MAX_def)
next
  case (Suc n)
  have step: "fc_msgid (alloc_times (Suc (Suc n)) (FastClient k tr)) =
      (if n mod 2147483646 + 2 \<ge> 2147483647 then 1 else n mod 2147483646 + 2)"
    using Suc.IH by (simp add: allocMessageId_def Let_def FP_MSGID_MAX_def)
  have bound: "n mod 2147483646 < 2147483646"
    by simp
  show ?case
  proof (cases "Suc (n mod 2147483646) = 2147483646")
    case True
    then have "Suc n mod 2147483646 = 0"
      by (simp add: mod_Suc)
    with True step show ?thesis
      by simp
  next
    case False
    then have "Suc n mod 2147483646 = Suc (n mod 2147483646)"
      by (simp add: mod_Suc)
    with False bound step show ?thesis
      by simp
  qed
qed

text \<open>
  C10: for every \<open>n \<ge> 1\<close>, the n-th message id a new client allocates is
  \<open>((n - 1) mod (2^31 - 2)) + 1\<close>.  The sequence starts at 1, never contains 0
  and is back at 1 when the counter would reach \<open>2^31 - 1\<close>.
\<close>

theorem allocMessageId_sequence:
  assumes "1 \<le> n"
  shows "nth_msgid (FastClient k tr) n = ((n - 1) mod (2 ^ 31 - 2)) + 1
    \<and> nth_msgid (FastClient k tr) n \<noteq> 0
    \<and> nth_msgid (FastClient k tr) 1 = 1
    \<and> (n < 2 ^ 31 - 2 \<longrightarrow> nth_msgid (FastClient k tr) (n + 1) = nth_msgid (FastClient k tr) n + 1)
    \<and> nth_msgid (FastClient k tr) (2 ^ 31 - 2) = 2 ^ 31 - 2
    \<and> nth_msgid (FastClient k tr) (2 ^ 31 - 1) = 1"
proof -
  have closed: "nth_msgid (FastClient k tr) m = (m - 1) mod 2147483646 + 1" if "1 \<le> m" for m
  proof -
    from that obtain j where m: "m = Suc j"
      by (cases m) auto
    have "fst (allocMessageId (alloc_times j (FastClient k tr)))
        = fc_msgid (alloc_times (Suc j) (FastClient k tr))"
      by (simp add: allocMessageId_def Let_def)
    then show ?thesis
      using fc_msgid_alloc_times [of j k tr] by (simp add: nth_msgid_def m)
  qed
  have a: "nth_msgid (FastClient k tr) n = (n - 1) mod 2147483646 + 1"
    using closed [OF assms] .
  have b: "nth_msgid (FastClient k tr) 1 = 1"
    using closed [of 1] by simp
  have c: "nth_msgid (FastClient k tr) (n + 1) = nth_msgid (FastClient k tr) n + 1"
    if "n < 2147483646"
  proof -
    have "nth_msgid (FastClient k tr) (n + 1) = n mod 2147483646 + 1"
      using closed [of "n + 1"] by simp
    moreover have "n mod 2147483646 = n" "(n - 1) mod 2147483646 = n - 1"
      using that by simp_all
    ultimately show ?thesis
      using a assms by simp
  qed
  have d: "nth_msgid (FastClient k tr) 2147483646 = 2147483646"
    using closed [of 2147483646] by simp
  have e: "nth_msgid (FastClient k tr) 2147483647 = 1"
    using closed [of 2147483647] by simp
  show ?thesis
    using a b c d e by simp
qed

theorem allocMessageId_sequence_witness:
  "(1::nat) \<le> 3 \<and> nth_msgid (FastClient 10 \<lparr>tr_end_listeners = [], tr_error_listeners = []\<rparr>) 3 = 3
    \<and> nth_msgid (FastClient 10 \<lparr>tr_end_listeners = [], tr_error_listeners = []\<rparr>) 2147483647 = 1"
  using allocMessageId_sequence [of 3 10 "\<lparr>tr_end_listeners = [], tr_error_listeners = []\<rparr>"]
  by simp

section \<open>What an END carries\<close>

text \<open>
  C1 (the code at the failing input): a request is pending under message id 1; the server
  sends a DATA with the item \<open>string_0\<close> and then an END with the item
  \<open>lastmessage\<close>.  The END branch of \<open>onMessage\<close> completes and ends
  the request without reading \<open>data.d\<close>: the stream is \<open>string_0\<close>
  and the end, and \<open>lastmessage\<close> is never delivered.
\<close>

theorem onMessage_END_items_not_delivered:
  "stream_of
     (perform_all (FastClient 10 bare_transport)
        [Rpc ''testmethod'' [],
         Message (FP_STATUS_DATA 1 [JStr ''string_0'']),
         Message (FP_STATUS_END 1 [JStr ''lastmessage''])]) 0
   = [Data (JStr ''string_0''), End]"
  by (simp add: method_defs test_setup_def)

section \<open>The error a failed request delivers\<close>

text \<open>
  C2 (the code at the failing input): the test case \<open>unexpected end of stream: no
  response at all\<close>, where the transport ends while the request is pending. The
  error the request delivers takes its name from its cause, here
  \<open>RequestAbortedError\<close> and not \<open>FastRequestError\<close>; it has no
  message of its own, so its message starts with the colon that precedes the cause's message
  and not with \<open>request failed\<close>; and its cause is the
  \<open>RequestAbortedError\<close> that wraps the protocol error.
\<close>

theorem requestFail_error_at_transport_end:
  "map (\<lambda>e. (ve_name e, ve_message e, map_option ve_name (ve_cause e), map fst (VError_info e)))
     (errors_of
        (perform_all (FastClient 10 bare_transport)
           (test_setup @ [TransportEnd, Immediate])) 0)
   = [(''RequestAbortedError'',
       '': request aborted: unexpected end of transport stream'',
       Some ''RequestAbortedError'',
       [''rpcMsgid'', ''rpcMethod''])]"
  by (simp add: method_defs test_setup_def)

text \<open>
  C3 (the code at the failing input): the server answers the pending request with the test
  suite's ERROR message.  The delivered error and its cause both carry the default name
  \<open>VError\<close>; the delivered message lacks \<open>request failed\<close>; and the
  info holds \<open>rpcMsgid\<close>, \<open>rpcMethod\<close>, \<open>context\<close> and
  \<open>errors\<close> but not the server's \<open>dummyProp\<close>, since
  \<open>data.d.info\<close> is never read.  The innermost error does carry the server's
  name and message.
\<close>

theorem onMessage_ERROR_delivered_error:
  "map (\<lambda>e. (ve_name e, ve_message e,
              map_option (\<lambda>s. (ve_name s, ve_message s,
                 map_option (\<lambda>d. (ve_name d, ve_message d)) (ve_cause s))) (ve_cause e),
              VError_info e))
     (errors_of
        (perform_all (FastClient 10 bare_transport)
           (test_setup @ [Message (FP_STATUS_ERROR 1 dummyResponseError), Immediate])) 0)
   = [(''VError'',
       '': server error: dummy error message'',
       Some (''VError'', ''server error: dummy error message'',
             Some (''DummyError'', ''dummy error message'')),
       [(''rpcMsgid'', JNum 1), (''rpcMethod'', JStr ''testmethod''),
        (''context'', JObj []), (''errors'', JArr [])])]"
  by (simp add: method_defs test_setup_def)

section \<open>Detaching\<close>

text \<open>
  C7 (the code at the failing input): \<open>detach\<close> on a client with one pending
  request. The call throws a TypeError at the second \<open>removeListener\<close>: the
  client is marked detached and its \<open>end\<close> listener is gone, but its
  \<open>error\<close> listener is still registered, the pipes are still in place, and the
  pending request has neither been failed nor left the pending table.  A second call returns
  at once and changes nothing.
\<close>

theorem detach_throws_before_cleanup:
  "map_option
     (\<lambda>(e, c). (e, fc_detached c, tr_end_listeners (fc_transport c),
                tr_error_listeners (fc_transport c), decoder_piped c, encoder_piped c,
                fc_pending c, map requestIsPending (heap c), immediates c,
                detach c = Inr c))
     (thrown (perform_all (FastClient 10 bare_transport) [Rpc ''testmethod'' [], Detach]))
   = Some (TypeError, True, [], [OnTransportError], True, True, [(1, 0)], [True], [], True)"
  by (simp add: method_defs test_setup_def)

section \<open>The invariant holds in every reachable state\<close>

lemma one_terminal_last_snoc [simp]:
  "one_terminal_last (xs @ [t]) \<longleftrightarrow> \<not> is_data t \<and> no_terminal xs"
  by (auto simp: one_terminal_last_def no_terminal_def)

lemma no_terminal_append [simp]:
  "no_terminal (xs @ ys) \<longleftrightarrow> no_terminal xs \<and> no_terminal ys"
  by (simp add: no_terminal_def)

lemma no_terminal_Data [simp]: "no_terminal (map Data ds)"
  by (induction ds) (simp_all add: no_terminal_def)

lemma no_terminal_Nil [simp]: "no_terminal []"
  by (simp add: no_terminal_def)

lemma length_delete_present:
  "distinct (map fst al) \<Longrightarrow> map_of al k = Some v \<Longrightarrow> Suc (length (AList.delete k al)) = length al"
proof (induction al)
  case Nil
  then show ?case by simp
next
  case (Cons p al)
  obtain k' v' where p: "p = (k', v')" by (cases p)
  show ?case
  proof (cases "k' = k")
    case True
    with Cons.prems p have "k \<notin> fst ` set al" by auto
    then show ?thesis using True p by simp
  next
    case False
    with Cons p show ?thesis by simp
  qed
qed

lemma length_update_fresh:
  "k \<notin> fst ` set al \<Longrightarrow> length (AList.update k v al) = Suc (length al)"
  by (induction al) auto

lemma inv_finish:
  assumes i: "inv c" and p: "map_of (fc_pending c) k = Some a"
    and h: "heap c' = (heap c)[a := r']"
    and pe: "fc_pending c' = AList.delete k (fc_pending c)"
    and st: "fc_nrpc_started c' = fc_nrpc_started c"
    and dn: "fc_nrpc_done c' = Suc (fc_nrpc_done c)"
    and id: "frq_msgid r' = k" and np: "\<not> requestIsPending r'"
    and ab: "\<And>k' a'. map_of (fc_aborted c') k' = Some a' \<Longrightarrow>
        (a' = a \<and> k' = k \<and> frq_aborted r' \<and> \<not> frq_done_graceful r' \<and> frq_error r' \<noteq> None)
        \<or> (a' \<noteq> a \<and> map_of (fc_aborted c) k' = Some a')"
    and s1: "one_terminal_last
        (frq_stream r' @ replicate (count_list (immediates c') a) (Error (frq_error r')))"
    and s2: "\<And>b. b \<noteq> a \<Longrightarrow> count_list (immediates c') b = count_list (immediates c) b"
    and s3: "set (immediates c') \<subseteq> insert a (set (immediates c))"
  shows "inv c'"
proof -
  from i have po: "pending_ok c" and ao: "aborted_ok c" and co: "counters_ok c"
    and so: "streams_ok c" and lo: "listed_ok c"
    by (simp_all add: inv_def)
  from po p have a: "a < length (heap c)" and ka: "frq_msgid (heap c ! a) = k"
    by (auto simp: pending_ok_def)
  have other: "a' \<noteq> a" if "map_of (fc_pending c) k' = Some a'" "k' \<noteq> k" for k' a'
    using po that ka by (auto simp: pending_ok_def)
  have 1: "pending_ok c'"
    unfolding pending_ok_def
  proof (intro allI impI)
    fix k' a'
    assume m: "map_of (fc_pending c') k' = Some a'"
    then have kk: "k' \<noteq> k" and m': "map_of (fc_pending c) k' = Some a'"
      by (auto simp: pe delete_conv' split: if_splits)
    from other [OF m' kk] po m' a
    show "a' < length (heap c') \<and> frq_msgid (heap c' ! a') = k' \<and>
        requestIsPending (heap c' ! a') \<and> \<not> frq_aborted (heap c' ! a')"
      by (auto simp: pending_ok_def h)
  qed
  have 2: "aborted_ok c'"
    unfolding aborted_ok_def
  proof (intro allI impI)
    fix k' a'
    assume m: "map_of (fc_aborted c') k' = Some a'"
    from ab [OF m] ao a id
    show "a' < length (heap c') \<and> frq_msgid (heap c' ! a') = k' \<and> frq_aborted (heap c' ! a') \<and>
        \<not> frq_done_graceful (heap c' ! a') \<and> frq_error (heap c' ! a') \<noteq> None"
      by (auto simp: aborted_ok_def h)
  qed
  have 3: "counters_ok c'"
    using co length_delete_present [of "fc_pending c" k a] p
    by (auto simp: counters_ok_def pe st dn distinct_delete)
  have 4: "streams_ok c'"
    unfolding streams_ok_def
  proof (intro conjI ballI allI impI)
    fix b assume "b \<in> set (immediates c')"
    with s3 so a show "b < length (heap c')"
      by (auto simp: streams_ok_def h)
  next
    fix b assume "b < length (heap c')"
    then have b: "b < length (heap c)" by (simp add: h)
    show "stream_ok c' b"
    proof (cases "b = a")
      case True
      then show ?thesis
        using np s1 a by (simp add: stream_ok_def h scheduled_def)
    next
      case False
      from so b have "stream_ok c b"
        by (simp add: streams_ok_def)
      then show ?thesis
        using False s2 [OF False] by (auto simp: stream_ok_def h scheduled_def split: if_splits)
    qed
  qed
  have 5: "listed_ok c'"
    unfolding listed_ok_def
  proof (intro allI impI)
    fix b assume "b < length (heap c')" and pb: "requestIsPending (heap c' ! b)"
    then have b: "b < length (heap c)" by (simp add: h)
    from pb np a have ba: "b \<noteq> a" by (auto simp: h)
    with pb b have pb': "requestIsPending (heap c ! b)" by (simp add: h)
    with lo b have m: "map_of (fc_pending c) (frq_msgid (heap c ! b)) = Some b"
      by (simp add: listed_ok_def)
    with p ba have "frq_msgid (heap c ! b) \<noteq> k" by auto
    with m ba b show "map_of (fc_pending c') (frq_msgid (heap c' ! b)) = Some b"
      by (simp add: pe h delete_conv')
  qed
  from 1 2 3 4 5 show ?thesis
    by (simp add: inv_def)
qed

lemma inv_frame:
  assumes "inv c" "heap c' = heap c" "fc_pending c' = fc_pending c"
    "fc_aborted c' = fc_aborted c" "fc_nrpc_started c' = fc_nrpc_started c"
    "fc_nrpc_done c' = fc_nrpc_done c" "immediates c' = immediates c"
  shows "inv c'"
  using assms
  by (simp add: inv_def pending_ok_def aborted_ok_def listed_ok_def counters_ok_def
      streams_ok_def stream_ok_def scheduled_def)

lemma inv_modify:
  assumes i: "inv c" and a: "a < length (heap c)"
    and h: "heap c' = (heap c)[a := r']"
    and same: "fc_pending c' = fc_pending c" "fc_aborted c' = fc_aborted c"
      "fc_nrpc_started c' = fc_nrpc_started c" "fc_nrpc_done c' = fc_nrpc_done c"
      "immediates c' = immediates c"
    and r: "frq_msgid r' = frq_msgid (heap c ! a)" "frq_error r' = frq_error (heap c ! a)"
      "frq_done_graceful r' = frq_done_graceful (heap c ! a)"
      "frq_aborted r' = frq_aborted (heap c ! a)"
    and s: "frq_stream r' = frq_stream (heap c ! a)
        \<or> (requestIsPending (heap c ! a) \<and> (\<exists>ds. frq_stream r' = frq_stream (heap c ! a) @ map Data ds))"
  shows "inv c'"
proof -
  have eq: "requestIsPending r' = requestIsPending (heap c ! a)"
    using r by (simp add: requestIsPending_def)
  have nth: "heap c' ! b = (if b = a then r' else heap c ! b)" if "b < length (heap c)" for b
    using that a by (simp add: h)
  have len: "length (heap c') = length (heap c)"
    by (simp add: h)
  from i have po: "pending_ok c" and ao: "aborted_ok c" and co: "counters_ok c"
    and so: "streams_ok c" and lo: "listed_ok c"
    by (simp_all add: inv_def)
  have 1: "pending_ok c'"
    using po r eq by (auto simp: pending_ok_def same len nth)
  have 2: "aborted_ok c'"
    using ao r by (auto simp: aborted_ok_def same len nth)
  have 3: "listed_ok c'"
    using lo r eq by (auto simp: listed_ok_def same len nth)
  have 4: "counters_ok c'"
    using co by (simp add: counters_ok_def same)
  have 5: "streams_ok c'"
    unfolding streams_ok_def
  proof (intro conjI ballI allI impI)
    fix b assume "b \<in> set (immediates c')"
    with so show "b < length (heap c')"
      by (simp add: streams_ok_def same len)
  next
    fix b assume "b < length (heap c')"
    then have b: "b < length (heap c)" by (simp add: len)
    with so have ok: "stream_ok c b"
      by (simp add: streams_ok_def)
    show "stream_ok c' b"
    proof (cases "b = a")
      case False
      with ok b show ?thesis
        by (simp add: stream_ok_def scheduled_def same nth)
    next
      case True
      with ok b s r eq show ?thesis
        by (auto simp: stream_ok_def scheduled_def same nth split: if_splits)
    qed
  qed
  from 1 2 3 4 5 show ?thesis
    by (simp add: inv_def)
qed

lemma inv_drop_aborted:
  assumes "inv c" "heap c' = heap c" "fc_pending c' = fc_pending c"
    "fc_aborted c' = AList.delete k (fc_aborted c)" "fc_nrpc_started c' = fc_nrpc_started c"
    "fc_nrpc_done c' = fc_nrpc_done c" "immediates c' = immediates c"
  shows "inv c'"
  using assms
  by (auto simp: inv_def pending_ok_def aborted_ok_def listed_ok_def counters_ok_def
      streams_ok_def stream_ok_def scheduled_def delete_conv' split: if_splits)

lemma inv_new_request:
  assumes i: "inv c" and fresh: "map_of (fc_pending c) m = None"
    and h: "heap c' = heap c @ [r]"
    and pe: "fc_pending c' = AList.update m (length (heap c)) (fc_pending c)"
    and same: "fc_aborted c' = fc_aborted c" "fc_nrpc_started c' = Suc (fc_nrpc_started c)"
      "fc_nrpc_done c' = fc_nrpc_done c" "immediates c' = immediates c"
    and r: "frq_msgid r = m" "requestIsPending r" "\<not> frq_aborted r" "frq_stream r = []"
  shows "inv c'"
proof -
  from i have po: "pending_ok c" and ao: "aborted_ok c" and co: "counters_ok c"
    and so: "streams_ok c" and lo: "listed_ok c"
    by (simp_all add: inv_def)
  have nokey: "m \<notin> fst ` set (fc_pending c)"
    using fresh by (simp add: map_of_eq_None_iff)
  have 1: "pending_ok c'"
    using po r fresh
    by (auto simp: pending_ok_def h pe update_conv' nth_append less_Suc_eq split: if_splits)
  have 2: "aborted_ok c'"
    using ao by (auto simp: aborted_ok_def h same nth_append less_Suc_eq)
  have 3: "listed_ok c'"
    using lo r fresh
    by (auto simp: listed_ok_def h pe update_conv' nth_append less_Suc_eq)
  have 4: "counters_ok c'"
    using co nokey by (simp add: counters_ok_def pe same distinct_update length_update_fresh)
  have 5: "streams_ok c'"
    unfolding streams_ok_def
  proof (intro conjI ballI allI impI)
    fix b assume "b \<in> set (immediates c')"
    with so show "b < length (heap c')"
      by (auto simp: streams_ok_def same h)
  next
    fix b assume b: "b < length (heap c')"
    show "stream_ok c' b"
    proof (cases "b < length (heap c)")
      case True
      with so have "stream_ok c b"
        by (simp add: streams_ok_def)
      with True show ?thesis
        by (simp add: stream_ok_def scheduled_def same h nth_append)
    next
      case False
      with b have bl: "b = length (heap c)"
        by (simp add: h)
      have "b \<notin> set (immediates c)"
        using so bl by (auto simp: streams_ok_def)
      with bl r show ?thesis
        by (simp add: stream_ok_def same h)
    qed
  qed
  from 1 2 3 4 5 show ?thesis
    by (simp add: inv_def)
qed

lemma inv_immediate:
  assumes i: "inv c" and q: "immediates c = a # rest"
    and h: "heap c' =
      (heap c)[a := (heap c ! a)\<lparr>frq_stream := frq_stream (heap c ! a) @ [Error (frq_error (heap c ! a))]\<rparr>]"
    and same: "fc_pending c' = fc_pending c" "fc_aborted c' = fc_aborted c"
      "fc_nrpc_started c' = fc_nrpc_started c" "fc_nrpc_done c' = fc_nrpc_done c"
    and im: "immediates c' = rest"
  shows "inv c'"
proof -
  from i have po: "pending_ok c" and ao: "aborted_ok c" and co: "counters_ok c"
    and so: "streams_ok c" and lo: "listed_ok c"
    by (simp_all add: inv_def)
  from so q have a: "a < length (heap c)"
    by (simp add: streams_ok_def)
  have nth: "heap c' ! b = (if b = a then (heap c ! a)\<lparr>frq_stream := frq_stream (heap c ! a) @ [Error (frq_error (heap c ! a))]\<rparr> else heap c ! b)"
    if "b < length (heap c)" for b
    using that a by (simp add: h)
  have len: "length (heap c') = length (heap c)"
    by (simp add: h)
  have 1: "pending_ok c'"
    using po by (auto simp: pending_ok_def same len nth requestIsPending_def)
  have 2: "aborted_ok c'"
    using ao by (auto simp: aborted_ok_def same len nth)
  have 3: "listed_ok c'"
    using lo by (auto simp: listed_ok_def same len nth requestIsPending_def)
  have 4: "counters_ok c'"
    using co by (simp add: counters_ok_def same)
  have 5: "streams_ok c'"
    unfolding streams_ok_def
  proof (intro conjI ballI allI impI)
    fix b assume "b \<in> set (immediates c')"
    with so q show "b < length (heap c')"
      by (simp add: streams_ok_def im len)
  next
    fix b assume "b < length (heap c')"
    then have b: "b < length (heap c)" by (simp add: len)
    with so have ok: "stream_ok c b"
      by (simp add: streams_ok_def)
    show "stream_ok c' b"
    proof (cases "b = a")
      case False
      with ok b q show ?thesis
        by (simp add: stream_ok_def scheduled_def same im nth)
    next
      case True
      with ok b q show ?thesis
        by (auto simp: stream_ok_def scheduled_def same im nth requestIsPending_def
            split: if_splits)
    qed
  qed
  from 1 2 3 4 5 show ?thesis
    by (simp add: inv_def)
qed

lemma requestComplete_eq:
  assumes "\<not> requestIsPending (heap c ! a)"
    "map_of (fc_pending c) (frq_msgid (heap c ! a)) = Some a"
  shows "requestComplete c a =
    Inr (c\<lparr>fc_pending := AList.delete (frq_msgid (heap c ! a)) (fc_pending c),
          fc_nrpc_done := Suc (fc_nrpc_done c),
          fc_recentrpc := push_recent (fc_nrecent c) (fc_recentrpc c) a\<rparr>)"
  using assms by (simp add: requestComplete_def Let_def)

lemma requestFail_eq:
  assumes "a < length (heap c)" "frq_error (heap c ! a) = None"
    "map_of (fc_pending c) (frq_msgid (heap c ! a)) = Some a"
  shows "requestFail c a err =
    Inr (c\<lparr>heap := (heap c)[a := (heap c ! a)\<lparr>frq_error := Some
              (new_VError (Some (ve_name err)) (Some err)
                 [(''rpcMsgid'', JNum (int (frq_msgid (heap c ! a)))),
                  (''rpcMethod'', JStr (frq_rpcmethod (heap c ! a)))] [])\<rparr>],
          fc_pending := AList.delete (frq_msgid (heap c ! a)) (fc_pending c),
          fc_nrpc_done := Suc (fc_nrpc_done c),
          fc_recentrpc := push_recent (fc_nrecent c) (fc_recentrpc c) a,
          immediates := immediates c @ [a]\<rparr>)"
  using assms
  by (simp add: requestFail_def requestComplete_def Let_def update_request_def and_then_def
      requestIsPending_def)

lemma requestAbort_eq:
  assumes "a < length (heap c)" "requestIsPending (heap c ! a)"
    "map_of (fc_pending c) (frq_msgid (heap c ! a)) = Some a"
  shows "requestAbort c a cause =
    Inr (c\<lparr>fc_aborted := AList.update (frq_msgid (heap c ! a)) a (fc_aborted c),
          heap := (heap c)[a := aborted_request cause (heap c ! a)],
          fc_pending := AList.delete (frq_msgid (heap c ! a)) (fc_pending c),
          fc_nrpc_done := Suc (fc_nrpc_done c),
          fc_recentrpc := push_recent (fc_nrecent c) (fc_recentrpc c) a,
          immediates := immediates c @ [a]\<rparr>)"
  using assms
  by (simp add: requestAbort_def requestFail_def requestComplete_def Let_def
      update_request_def and_then_def requestIsPending_def aborted_request_def new_VError_def)

lemma requestAbort_done:
  "\<not> requestIsPending (heap c ! a) \<Longrightarrow> requestAbort c a cause = Inr c"
  by (simp add: requestAbort_def)

lemma inv_aborted:
  assumes i: "inv c" and a: "a < length (heap c)" and p: "requestIsPending (heap c ! a)"
  shows "inv (c\<lparr>fc_aborted := AList.update (frq_msgid (heap c ! a)) a (fc_aborted c),
          heap := (heap c)[a := aborted_request cause (heap c ! a)],
          fc_pending := AList.delete (frq_msgid (heap c ! a)) (fc_pending c),
          fc_nrpc_done := Suc (fc_nrpc_done c),
          fc_recentrpc := push_recent (fc_nrecent c) (fc_recentrpc c) a,
          immediates := immediates c @ [a]\<rparr>)"
proof (rule inv_finish [OF i, where a = a and k = "frq_msgid (heap c ! a)"
      and r' = "aborted_request cause (heap c ! a)"])
  from i a p show m: "map_of (fc_pending c) (frq_msgid (heap c ! a)) = Some a"
    by (simp add: inv_def listed_ok_def)
  from i m have s: "stream_ok c a"
    using a by (simp add: inv_def streams_ok_def)
  with p show "one_terminal_last
     (frq_stream (aborted_request cause (heap c ! a)) @
      replicate (count_list (immediates (c\<lparr>fc_aborted := AList.update (frq_msgid (heap c ! a)) a (fc_aborted c),
          heap := (heap c)[a := aborted_request cause (heap c ! a)],
          fc_pending := AList.delete (frq_msgid (heap c ! a)) (fc_pending c),
          fc_nrpc_done := Suc (fc_nrpc_done c),
          fc_recentrpc := push_recent (fc_nrecent c) (fc_recentrpc c) a,
          immediates := immediates c @ [a]\<rparr>)) a)
        (Error (frq_error (aborted_request cause (heap c ! a)))))"
    by (simp add: stream_ok_def aborted_request_def)
  fix k' a'
  assume "map_of (fc_aborted (c\<lparr>fc_aborted := AList.update (frq_msgid (heap c ! a)) a (fc_aborted c),
          heap := (heap c)[a := aborted_request cause (heap c ! a)],
          fc_pending := AList.delete (frq_msgid (heap c ! a)) (fc_pending c),
          fc_nrpc_done := Suc (fc_nrpc_done c),
          fc_recentrpc := push_recent (fc_nrecent c) (fc_recentrpc c) a,
          immediates := immediates c @ [a]\<rparr>)) k' = Some a'"
  then have "(k' = frq_msgid (heap c ! a) \<and> a' = a)
      \<or> (k' \<noteq> frq_msgid (heap c ! a) \<and> map_of (fc_aborted c) k' = Some a')"
    by (auto simp: update_conv' split: if_splits)
  moreover have "a' \<noteq> a" if "map_of (fc_aborted c) k' = Some a'" "k' \<noteq> frq_msgid (heap c ! a)"
    using i that by (auto simp: inv_def aborted_ok_def)
  ultimately show "a' = a \<and> k' = frq_msgid (heap c ! a) \<and>
       frq_aborted (aborted_request cause (heap c ! a)) \<and>
       \<not> frq_done_graceful (aborted_request cause (heap c ! a)) \<and>
       frq_error (aborted_request cause (heap c ! a)) \<noteq> None \<or>
       a' \<noteq> a \<and> map_of (fc_aborted c) k' = Some a'"
    using p by (auto simp: aborted_request_def requestIsPending_def)
qed (simp_all add: aborted_request_def requestIsPending_def)

lemma abort_each_effect:
  assumes "inv c"
  shows "\<exists>c'. abort_each ks err c = Inr c' \<and> inv c' \<and> aborted_all (set ks) err c c'"
  using assms
proof (induction ks arbitrary: c)
  case Nil
  then show ?case
    by (simp add: aborted_all_def)
next
  case (Cons k ks)
  show ?case
  proof (cases "map_of (fc_pending c) k")
    case None
    from Cons.IH [OF Cons.prems] obtain c' where
      c': "abort_each ks err c = Inr c'" "inv c'" "aborted_all (set ks) err c c'"
      by blast
    from c'(3) None have "aborted_all (set (k # ks)) err c c'"
      by (auto simp: aborted_all_def)
    with c' None show ?thesis
      by simp
  next
    case (Some a)
    from Cons.prems Some have a: "a < length (heap c)" and ka: "frq_msgid (heap c ! a) = k"
      and pa: "requestIsPending (heap c ! a)"
      by (auto simp: inv_def pending_ok_def)
    define c1 where "c1 = c\<lparr>fc_aborted := AList.update (frq_msgid (heap c ! a)) a (fc_aborted c),
          heap := (heap c)[a := aborted_request (Some err) (heap c ! a)],
          fc_pending := AList.delete (frq_msgid (heap c ! a)) (fc_pending c),
          fc_nrpc_done := Suc (fc_nrpc_done c),
          fc_recentrpc := push_recent (fc_nrecent c) (fc_recentrpc c) a,
          immediates := immediates c @ [a]\<rparr>"
    have r: "requestAbort c a (Some err) = Inr c1"
      unfolding c1_def using a pa Some ka by (intro requestAbort_eq) simp_all
    have i1: "inv c1"
      unfolding c1_def using Cons.prems a pa by (rule inv_aborted)
    have p1: "map_of (fc_pending c1) = (map_of (fc_pending c))(k := None)"
      by (simp add: c1_def ka delete_conv')
    have a1: "map_of (fc_aborted c1) = (map_of (fc_aborted c))(k \<mapsto> a)"
      by (simp add: c1_def ka update_conv')
    have h1: "heap c1 = (heap c)[a := aborted_request (Some err) (heap c ! a)]"
      and q1: "immediates c1 = immediates c @ [a]"
      and f1: "fc_error c1 = fc_error c" "emitted c1 = emitted c" "fc_nerrors c1 = fc_nerrors c"
      by (simp_all add: c1_def)
    from Cons.IH [OF i1] obtain c' where
      c': "abort_each ks err c1 = Inr c'" "inv c'" "aborted_all (set ks) err c1 c'"
      by blast
    have run: "abort_each (k # ks) err c = Inr c'"
      using Some pa r c'(1) p1 by (simp add: hasOwnProperty_def)
    have only: "k' = k" if "map_of (fc_pending c) k' = Some a" for k'
      using Cons.prems that ka by (auto simp: inv_def pending_ok_def)
    have ex1: "(\<exists>k'\<in>set ks. map_of (fc_pending c1) k' = Some b) \<longleftrightarrow>
        b \<noteq> a \<and> (\<exists>k'\<in>set (k # ks). map_of (fc_pending c) k' = Some b)" for b
    proof
      assume "\<exists>k'\<in>set ks. map_of (fc_pending c1) k' = Some b"
      then obtain k' where k': "k' \<in> set ks" "map_of (fc_pending c1) k' = Some b"
        by blast
      then have "k' \<noteq> k" "map_of (fc_pending c) k' = Some b"
        by (simp_all add: p1 split: if_splits)
      with k'(1) only [of k'] show "b \<noteq> a \<and> (\<exists>k'\<in>set (k # ks). map_of (fc_pending c) k' = Some b)"
        by auto
    next
      assume r: "b \<noteq> a \<and> (\<exists>k'\<in>set (k # ks). map_of (fc_pending c) k' = Some b)"
      then obtain k' where k': "k' \<in> set (k # ks)" "map_of (fc_pending c) k' = Some b"
        by blast
      with r Some have "k' \<noteq> k"
        by auto
      with k' have "k' \<in> set ks" "map_of (fc_pending c1) k' = Some b"
        by (simp_all add: p1)
      then show "\<exists>k'\<in>set ks. map_of (fc_pending c1) k' = Some b"
        by blast
    qed
    have ex2: "(\<exists>k'\<in>set (k # ks). map_of (fc_pending c) k' = Some a)"
      using Some by auto
    have "aborted_all (set (k # ks)) err c c'"
      unfolding aborted_all_def
    proof (intro conjI allI impI)
      fix b assume b: "b < length (heap c)"
      then have "b < length (heap c1)" by (simp add: h1)
      with c'(3) have "heap c' ! b =
          (if \<exists>k'\<in>set ks. map_of (fc_pending c1) k' = Some b
           then aborted_request (Some err) (heap c1 ! b) else heap c1 ! b)"
        by (simp add: aborted_all_def)
      then show "heap c' ! b =
          (if \<exists>k'\<in>set (k # ks). map_of (fc_pending c) k' = Some b
           then aborted_request (Some err) (heap c ! b) else heap c ! b)"
        using ex2 a b by (cases "b = a") (simp_all add: ex1 h1)
    next
      fix b
      from c'(3) have "count_list (immediates c') b =
          count_list (immediates c1) b +
            (if \<exists>k'\<in>set ks. map_of (fc_pending c1) k' = Some b then 1 else 0)"
        by (simp add: aborted_all_def)
      then show "count_list (immediates c') b =
          count_list (immediates c) b +
            (if \<exists>k'\<in>set (k # ks). map_of (fc_pending c) k' = Some b then 1 else 0)"
        using ex2 by (cases "b = a") (simp_all add: ex1 q1)
    next
      fix k'
      from c'(3) show "map_of (fc_pending c') k' =
          (if k' \<in> set (k # ks) then None else map_of (fc_pending c) k')"
        by (simp add: aborted_all_def p1)
    next
      fix k'
      from c'(3) have "map_of (fc_aborted c') k' =
          (if k' \<in> set ks \<and> map_of (fc_pending c1) k' \<noteq> None then map_of (fc_pending c1) k'
           else map_of (fc_aborted c1) k')"
        by (simp add: aborted_all_def)
      then have *: "map_of (fc_aborted c') k' =
          (if k' \<in> set ks \<and> map_of (fc_pending c1) k' \<noteq> None then map_of (fc_pending c1) k'
           else map_of (fc_aborted c1) k')" .
      show "map_of (fc_aborted c') k' =
          (if k' \<in> set (k # ks) \<and> map_of (fc_pending c) k' \<noteq> None
           then map_of (fc_pending c) k' else map_of (fc_aborted c) k')"
      proof (cases "k' = k")
        case True
        with Some * show ?thesis
          by (simp add: p1 a1)
      next
        case False
        then have "map_of (fc_pending c1) k' = map_of (fc_pending c) k'"
          "map_of (fc_aborted c1) k' = map_of (fc_aborted c) k'"
          by (simp_all add: p1 a1)
        with False * show ?thesis
          by auto
      qed
    qed (insert c'(3) f1 h1, simp_all add: aborted_all_def)
    with run c'(2) show ?thesis
      by blast
  qed
qed

lemma requestAbortAll_effect:
  assumes "inv c"
  shows "\<exists>c'. requestAbortAll c err = Inr c' \<and> inv c' \<and> fc_pending c' = []
    \<and> aborted_all (fst ` set (fc_pending c)) err c c'"
proof -
  from abort_each_effect [OF assms, of "sort (map fst (fc_pending c))" err] obtain c' where
    c': "abort_each (sort (map fst (fc_pending c))) err c = Inr c'" "inv c'"
      "aborted_all (fst ` set (fc_pending c)) err c c'"
    by auto
  have "map_of (fc_pending c') k = None" for k
    using c'(3) by (auto simp: aborted_all_def map_of_eq_None_iff)
  then have "map_of (fc_pending c') = Map.empty"
    by (simp add: fun_eq_iff)
  then have "fc_pending c' = []"
    by simp
  with c' show ?thesis
    by (simp add: requestAbortAll_def)
qed

lemma pending_facts:
  assumes "inv c" "map_of (fc_pending c) m = Some a"
  shows "a < length (heap c)" "frq_msgid (heap c ! a) = m" "requestIsPending (heap c ! a)"
    "\<not> frq_aborted (heap c ! a)" "\<not> frq_done_graceful (heap c ! a)"
    "frq_error (heap c ! a) = None" "no_terminal (frq_stream (heap c ! a))"
    "count_list (immediates c) a = 0"
  using assms
  by (auto simp: inv_def pending_ok_def streams_ok_def stream_ok_def requestIsPending_def)

lemma aborted_facts:
  assumes "inv c" "map_of (fc_aborted c) m = Some a"
  shows "a < length (heap c)" "frq_msgid (heap c ! a) = m" "frq_aborted (heap c ! a)"
    "\<not> frq_done_graceful (heap c ! a)" "frq_error (heap c ! a) \<noteq> None"
  using assms by (auto simp: inv_def aborted_ok_def)

lemma aborted_not_pending:
  assumes "inv c" "map_of (fc_pending c) k = Some a" "map_of (fc_aborted c) k' = Some a'"
  shows "a' \<noteq> a"
  using pending_facts(4) [OF assms(1,2)] aborted_facts(3) [OF assms(1,3)] by auto

lemma onMessage_pending_END:
  assumes "inv c" "map_of (fc_pending c) m = Some a"
  shows "onMessage c (FP_STATUS_END m ds) =
    Inr (c\<lparr>fc_pending := AList.delete m (fc_pending c),
          fc_nrpc_done := Suc (fc_nrpc_done c),
          fc_recentrpc := push_recent (fc_nrecent c) (fc_recentrpc c) a,
          heap := (heap c)[a := (heap c ! a)
            \<lparr>frq_last := Some (FP_STATUS_END m ds), frq_done_graceful := True,
             frq_stream := frq_stream (heap c ! a) @ [End]\<rparr>]\<rparr>)"
  using assms(2) pending_facts [OF assms]
  by (simp add: onMessage_def requestComplete_def Let_def update_request_def and_then_def
      requestIsPending_def)

lemma update_request_twice:
  "update_request a f (update_request a g c) = update_request a (\<lambda>r. f (g r)) c"
  by (cases "a < length (heap c)") (simp_all add: update_request_def list_update_beyond)

lemma update_request_same:
  "(\<And>r. f r = r) \<Longrightarrow> update_request a f c = c"
  by (simp add: update_request_def)

lemma forEach_push_effect:
  "\<exists>ds'. state_after (forEach_push ds a c) =
     update_request a (\<lambda>r. r\<lparr>frq_stream := frq_stream r @ map Data ds'\<rparr>) c"
proof (induction ds arbitrary: c)
  case Nil
  have "state_after (forEach_push [] a c) =
      update_request a (\<lambda>r. r\<lparr>frq_stream := frq_stream r @ map Data []\<rparr>) c"
    by (simp add: state_after_def update_request_same)
  then show ?case ..
next
  case (Cons d ds)
  define c1 where "c1 = update_request a (\<lambda>r. r\<lparr>frq_stream := frq_stream r @ [Data d]\<rparr>) c"
  show ?case
  proof (cases "d \<noteq> JNull \<and> ended (frq_stream (heap c ! a))
      \<and> rq_error_listeners (heap c ! a) = 0")
    case True
    then have "state_after (forEach_push (d # ds) a c) =
        update_request a (\<lambda>r. r\<lparr>frq_stream := frq_stream r @ map Data [d]\<rparr>) c"
      by (simp add: push_def Let_def throw_def and_then_def state_after_def)
    then show ?thesis ..
  next
    case False
    then have p: "push c a d = Inr c1"
      by (auto simp: push_def Let_def c1_def)
    from Cons.IH [of c1] obtain ds' where
      "state_after (forEach_push ds a c1) =
         update_request a (\<lambda>r. r\<lparr>frq_stream := frq_stream r @ map Data ds'\<rparr>) c1" ..
    then have "state_after (forEach_push (d # ds) a c) =
        update_request a (\<lambda>r. r\<lparr>frq_stream := frq_stream r @ map Data (d # ds')\<rparr>) c"
      by (simp add: p and_then_def c1_def update_request_twice)
    then show ?thesis ..
  qed
qed

lemma onMessage_pending_DATA:
  assumes "inv c" "map_of (fc_pending c) m = Some a"
  shows "\<exists>ds'. state_after (onMessage c (FP_STATUS_DATA m ds)) =
    c\<lparr>heap := (heap c)[a := (heap c ! a)
            \<lparr>frq_last := Some (FP_STATUS_DATA m ds),
             frq_ndata := Suc (frq_ndata (heap c ! a)),
             frq_stream := frq_stream (heap c ! a) @ map Data ds'\<rparr>]\<rparr>"
proof -
  note f = pending_facts [OF assms]
  define c2 where "c2 = update_request a (\<lambda>r. r\<lparr>frq_ndata := frq_ndata r + 1\<rparr>)
      (update_request a (\<lambda>r. r\<lparr>frq_last := Some (FP_STATUS_DATA m ds)\<rparr>) c)"
  have om: "onMessage c (FP_STATUS_DATA m ds) = forEach_push ds a c2"
    using assms(2) f
    by (simp add: onMessage_def Let_def c2_def update_request_def requestIsPending_def)
  from forEach_push_effect [of ds a c2] obtain ds' where
    "state_after (forEach_push ds a c2) =
       update_request a (\<lambda>r. r\<lparr>frq_stream := frq_stream r @ map Data ds'\<rparr>) c2" ..
  then have "state_after (onMessage c (FP_STATUS_DATA m ds)) =
    c\<lparr>heap := (heap c)[a := (heap c ! a)
            \<lparr>frq_last := Some (FP_STATUS_DATA m ds),
             frq_ndata := Suc (frq_ndata (heap c ! a)),
             frq_stream := frq_stream (heap c ! a) @ map Data ds'\<rparr>]\<rparr>"
    using f(1) by (simp add: om c2_def update_request_def)
  then show ?thesis ..
qed

lemma onMessage_pending_ERROR:
  assumes "inv c" "map_of (fc_pending c) m = Some a"
  shows "onMessage c (FP_STATUS_ERROR m d) =
    Inr (c\<lparr>heap := (heap c)[a := (heap c ! a)
            \<lparr>frq_last := Some (FP_STATUS_ERROR m d), frq_done_graceful := True,
             frq_error := Some (request_error (heap c ! a) (server_error (heap c ! a) d))\<rparr>],
          fc_pending := AList.delete m (fc_pending c),
          fc_nrpc_done := Suc (fc_nrpc_done c),
          fc_recentrpc := push_recent (fc_nrecent c) (fc_recentrpc c) a,
          immediates := immediates c @ [a]\<rparr>)"
  using assms(2) pending_facts [OF assms]
  by (simp add: onMessage_def requestFail_def requestComplete_def Let_def update_request_def
      and_then_def requestIsPending_def server_error_def request_error_def)

lemma onMessage_aborted_END:
  assumes "inv c" "map_of (fc_pending c) m = None" "map_of (fc_aborted c) m = Some a"
  shows "onMessage c (FP_STATUS_END m ds) =
    Inr (c\<lparr>heap := (heap c)[a := (heap c ! a)\<lparr>frq_last := Some (FP_STATUS_END m ds)\<rparr>],
          fc_aborted := AList.delete m (fc_aborted c)\<rparr>)"
  using assms(2,3) aborted_facts [OF assms(1,3)]
  by (simp add: onMessage_def Let_def update_request_def)

lemma onMessage_aborted_DATA:
  assumes "inv c" "map_of (fc_pending c) m = None" "map_of (fc_aborted c) m = Some a"
  shows "onMessage c (FP_STATUS_DATA m ds) =
    Inr (c\<lparr>heap := (heap c)[a := (heap c ! a)
            \<lparr>frq_last := Some (FP_STATUS_DATA m ds),
             frq_nignored := Suc (frq_nignored (heap c ! a))\<rparr>]\<rparr>)"
  using assms(2,3) aborted_facts [OF assms(1,3)]
  by (simp add: onMessage_def Let_def update_request_def)

lemma onMessage_aborted_ERROR:
  assumes "inv c" "map_of (fc_pending c) m = None" "map_of (fc_aborted c) m = Some a"
  shows "onMessage c (FP_STATUS_ERROR m d) =
    Inr (c\<lparr>heap := (heap c)[a := (heap c ! a)
            \<lparr>frq_last := Some (FP_STATUS_ERROR m d),
             frq_nignored := Suc (frq_nignored (heap c ! a))\<rparr>]\<rparr>)"
  using assms(2,3) aborted_facts [OF assms(1,3)]
  by (simp add: onMessage_def Let_def update_request_def)

lemma fatalError_later:
  "fc_error c \<noteq> None \<Longrightarrow> fatalError c err = Inr (c\<lparr>fc_nerrors := Suc (fc_nerrors c)\<rparr>)"
  by (simp add: fatalError_def)

lemma fatalError_unheard:
  assumes "fc_error c = None" "error_listeners c = 0"
  shows "fatalError c err =
    Inl (Unhandled (Some err), c\<lparr>fc_nerrors := Suc (fc_nerrors c), fc_error := Some err\<rparr>)"
  using assms by (simp add: fatalError_def emit_error_def throw_def and_then_def)

lemma fatalError_first:
  assumes "inv c" "fc_error c = None" "error_listeners c \<noteq> 0"
  shows "\<exists>c'. fatalError c err = Inr c' \<and> inv c' \<and> fc_pending c' = []
    \<and> aborted_all (fst ` set (fc_pending c)) err
         (c\<lparr>fc_nerrors := Suc (fc_nerrors c), fc_error := Some err,
            emitted := emitted c @ [err]\<rparr>) c'"
proof -
  define c3 where "c3 = c\<lparr>fc_nerrors := Suc (fc_nerrors c), fc_error := Some err,
                  emitted := emitted c @ [err]\<rparr>"
  have "inv c3"
    using assms(1) unfolding c3_def by (rule inv_frame) simp_all
  from requestAbortAll_effect [OF this, of err] obtain c' where
    c': "requestAbortAll c3 err = Inr c'" "inv c'" "fc_pending c' = []"
      "aborted_all (fst ` set (fc_pending c3)) err c3 c'"
    by blast
  have "fatalError c err = Inr c'"
    using assms(2,3) c'(1) by (simp add: fatalError_def emit_error_def and_then_def c3_def)
  moreover have "aborted_all (fst ` set (fc_pending c)) err c3 c'"
    using c'(4) by (simp add: c3_def)
  ultimately show ?thesis
    using c'(2,3) unfolding c3_def by blast
qed

lemma fatalError_inv:
  assumes "inv c"
  shows "inv (state_after (fatalError c err))"
proof (cases "fc_error c")
  case (Some e)
  have "inv (c\<lparr>fc_nerrors := Suc (fc_nerrors c)\<rparr>)"
    using assms by (rule inv_frame) simp_all
  with Some show ?thesis
    by (simp add: fatalError_later state_after_def)
next
  case None
  show ?thesis
  proof (cases "error_listeners c = 0")
    case True
    have "inv (c\<lparr>fc_nerrors := Suc (fc_nerrors c), fc_error := Some err\<rparr>)"
      using assms by (rule inv_frame) simp_all
    with None True show ?thesis
      by (simp add: fatalError_unheard state_after_def)
  next
    case False
    from fatalError_first [OF assms None False, of err] show ?thesis
      by (auto simp: state_after_def)
  qed
qed

lemma onMessage_inv:
  assumes i: "inv c"
  shows "inv (state_after (onMessage c msg))"
proof (cases "map_of (fc_pending c) (msgid msg)")
  case (Some a)
  note f = pending_facts [OF i Some]
  show ?thesis
  proof (cases msg)
    case (FP_STATUS_DATA m ds)
    with Some have p: "map_of (fc_pending c) m = Some a" by simp
    from onMessage_pending_DATA [OF i p, of ds] obtain ds' where
      e: "state_after (onMessage c (FP_STATUS_DATA m ds)) =
        c\<lparr>heap := (heap c)[a := (heap c ! a)
            \<lparr>frq_last := Some (FP_STATUS_DATA m ds),
             frq_ndata := Suc (frq_ndata (heap c ! a)),
             frq_stream := frq_stream (heap c ! a) @ map Data ds'\<rparr>]\<rparr>" ..
    have "inv (c\<lparr>heap := (heap c)[a := (heap c ! a)
            \<lparr>frq_last := Some (FP_STATUS_DATA m ds),
             frq_ndata := Suc (frq_ndata (heap c ! a)),
             frq_stream := frq_stream (heap c ! a) @ map Data ds'\<rparr>]\<rparr>)"
      by (rule inv_modify [OF i f(1), where r' = "(heap c ! a)
            \<lparr>frq_last := Some (FP_STATUS_DATA m ds),
             frq_ndata := Suc (frq_ndata (heap c ! a)),
             frq_stream := frq_stream (heap c ! a) @ map Data ds'\<rparr>"]) (use f in auto)
    then show ?thesis
      unfolding FP_STATUS_DATA e .
  next
    case (FP_STATUS_END m ds)
    with Some have p: "map_of (fc_pending c) m = Some a" by simp
    have "inv (c\<lparr>fc_pending := AList.delete m (fc_pending c),
          fc_nrpc_done := Suc (fc_nrpc_done c),
          fc_recentrpc := push_recent (fc_nrecent c) (fc_recentrpc c) a,
          heap := (heap c)[a := (heap c ! a)
            \<lparr>frq_last := Some (FP_STATUS_END m ds), frq_done_graceful := True,
             frq_stream := frq_stream (heap c ! a) @ [End]\<rparr>]\<rparr>)"
    proof (rule inv_finish [OF i p, where r' = "(heap c ! a)
            \<lparr>frq_last := Some (FP_STATUS_END m ds), frq_done_graceful := True,
             frq_stream := frq_stream (heap c ! a) @ [End]\<rparr>"])
      fix k' a'
      assume "map_of (fc_aborted (c\<lparr>fc_pending := AList.delete m (fc_pending c),
          fc_nrpc_done := Suc (fc_nrpc_done c),
          fc_recentrpc := push_recent (fc_nrecent c) (fc_recentrpc c) a,
          heap := (heap c)[a := (heap c ! a)
            \<lparr>frq_last := Some (FP_STATUS_END m ds), frq_done_graceful := True,
             frq_stream := frq_stream (heap c ! a) @ [End]\<rparr>]\<rparr>)) k' = Some a'"
      then have "map_of (fc_aborted c) k' = Some a'" by simp
      with aborted_not_pending [OF i p this]
      show "a' = a \<and> k' = m \<and>
         frq_aborted ((heap c ! a)\<lparr>frq_last := Some (FP_STATUS_END m ds), frq_done_graceful := True,
             frq_stream := frq_stream (heap c ! a) @ [End]\<rparr>) \<and>
         \<not> frq_done_graceful ((heap c ! a)\<lparr>frq_last := Some (FP_STATUS_END m ds), frq_done_graceful := True,
             frq_stream := frq_stream (heap c ! a) @ [End]\<rparr>) \<and>
         frq_error ((heap c ! a)\<lparr>frq_last := Some (FP_STATUS_END m ds), frq_done_graceful := True,
             frq_stream := frq_stream (heap c ! a) @ [End]\<rparr>) \<noteq> None \<or>
         a' \<noteq> a \<and> map_of (fc_aborted c) k' = Some a'"
        by simp
    qed (use f FP_STATUS_END in \<open>auto simp: requestIsPending_def\<close>)
    then show ?thesis
      using onMessage_pending_END [OF i p] FP_STATUS_END by (simp add: state_after_def)
  next
    case (FP_STATUS_ERROR m d)
    with Some have p: "map_of (fc_pending c) m = Some a" by simp
    have "inv (c\<lparr>heap := (heap c)[a := (heap c ! a)
            \<lparr>frq_last := Some (FP_STATUS_ERROR m d), frq_done_graceful := True,
             frq_error := Some (request_error (heap c ! a) (server_error (heap c ! a) d))\<rparr>],
          fc_pending := AList.delete m (fc_pending c),
          fc_nrpc_done := Suc (fc_nrpc_done c),
          fc_recentrpc := push_recent (fc_nrecent c) (fc_recentrpc c) a,
          immediates := immediates c @ [a]\<rparr>)"
    proof (rule inv_finish [OF i p, where r' = "(heap c ! a)
            \<lparr>frq_last := Some (FP_STATUS_ERROR m d), frq_done_graceful := True,
             frq_error := Some (request_error (heap c ! a) (server_error (heap c ! a) d))\<rparr>"])
      fix k' a'
      assume "map_of (fc_aborted (c\<lparr>heap := (heap c)[a := (heap c ! a)
            \<lparr>frq_last := Some (FP_STATUS_ERROR m d), frq_done_graceful := True,
             frq_error := Some (request_error (heap c ! a) (server_error (heap c ! a) d))\<rparr>],
          fc_pending := AList.delete m (fc_pending c),
          fc_nrpc_done := Suc (fc_nrpc_done c),
          fc_recentrpc := push_recent (fc_nrecent c) (fc_recentrpc c) a,
          immediates := immediates c @ [a]\<rparr>)) k' = Some a'"
      then have "map_of (fc_aborted c) k' = Some a'" by simp
      with aborted_not_pending [OF i p this]
      show "a' = a \<and> k' = m \<and>
         frq_aborted ((heap c ! a)\<lparr>frq_last := Some (FP_STATUS_ERROR m d), frq_done_graceful := True,
             frq_error := Some (request_error (heap c ! a) (server_error (heap c ! a) d))\<rparr>) \<and>
         \<not> frq_done_graceful ((heap c ! a)\<lparr>frq_last := Some (FP_STATUS_ERROR m d), frq_done_graceful := True,
             frq_error := Some (request_error (heap c ! a) (server_error (heap c ! a) d))\<rparr>) \<and>
         frq_error ((heap c ! a)\<lparr>frq_last := Some (FP_STATUS_ERROR m d), frq_done_graceful := True,
             frq_error := Some (request_error (heap c ! a) (server_error (heap c ! a) d))\<rparr>) \<noteq> None \<or>
         a' \<noteq> a \<and> map_of (fc_aborted c) k' = Some a'"
        by simp
    qed (use f FP_STATUS_ERROR in \<open>auto simp: requestIsPending_def\<close>)
    then show ?thesis
      using onMessage_pending_ERROR [OF i p] FP_STATUS_ERROR by (simp add: state_after_def)
  qed
next
  case None
  show ?thesis
  proof (cases "map_of (fc_aborted c) (msgid msg)")
    case (Some a)
    note f = aborted_facts [OF i Some]
    have m: "inv (c\<lparr>heap := (heap c)[a := r']\<rparr>)"
      if "frq_msgid r' = frq_msgid (heap c ! a)" "frq_error r' = frq_error (heap c ! a)"
        "frq_done_graceful r' = frq_done_graceful (heap c ! a)"
        "frq_aborted r' = frq_aborted (heap c ! a)" "frq_stream r' = frq_stream (heap c ! a)"
      for r'
      by (rule inv_modify [OF i f(1), where r' = r']) (use that in simp_all)
    show ?thesis
    proof (cases msg)
      case (FP_STATUS_DATA m' ds)
      with None Some onMessage_aborted_DATA [OF i, of m' a ds] m show ?thesis
        by (simp add: state_after_def)
    next
      case (FP_STATUS_ERROR m' d)
      with None Some onMessage_aborted_ERROR [OF i, of m' a d] m show ?thesis
        by (simp add: state_after_def)
    next
      case (FP_STATUS_END m' ds)
      have "inv (c\<lparr>heap := (heap c)[a := (heap c ! a)\<lparr>frq_last := Some (FP_STATUS_END m' ds)\<rparr>]\<rparr>)"
        by (rule m) simp_all
      then have "inv (c\<lparr>heap := (heap c)[a := (heap c ! a)\<lparr>frq_last := Some (FP_STATUS_END m' ds)\<rparr>],
          fc_aborted := AList.delete m' (fc_aborted c)\<rparr>)"
        by (rule inv_drop_aborted) simp_all
      with FP_STATUS_END None Some onMessage_aborted_END [OF i, of m' a ds] show ?thesis
        by (simp add: state_after_def)
    qed
  next
    case None': None
    have "onMessage c msg = fatalError c
        (new_VError (Some ''FastProtocolError'') None
               [(''fast_reason'', JStr ''unknown_msgid''),
                (''fast_msgid'', JNum (int (msgid msg)))]
               (''fast protocol: received message with unknown msgid '' @
                  decimal (msgid msg)))"
      using None None' by (simp add: onMessage_def)
    with fatalError_inv [OF i] show ?thesis
      by simp
  qed
qed

lemma inv_FastClient: "inv (FastClient n tr)"
  by (simp add: FastClient_def attach_def Let_def inv_def pending_ok_def aborted_ok_def
      listed_ok_def counters_ok_def streams_ok_def)

lemma requestFail_inv:
  assumes i: "inv c" and p: "map_of (fc_pending c) k = Some a"
  shows "\<exists>c'. requestFail c a err = Inr c' \<and> inv c'"
proof -
  note f = pending_facts [OF i p]
  have "inv (c\<lparr>heap := (heap c)[a := (heap c ! a)\<lparr>frq_error := Some
              (new_VError (Some (ve_name err)) (Some err)
                 [(''rpcMsgid'', JNum (int (frq_msgid (heap c ! a)))),
                  (''rpcMethod'', JStr (frq_rpcmethod (heap c ! a)))] [])\<rparr>],
          fc_pending := AList.delete (frq_msgid (heap c ! a)) (fc_pending c),
          fc_nrpc_done := Suc (fc_nrpc_done c),
          fc_recentrpc := push_recent (fc_nrecent c) (fc_recentrpc c) a,
          immediates := immediates c @ [a]\<rparr>)"
  proof (rule inv_finish [OF i p, where r' = "(heap c ! a)\<lparr>frq_error := Some
              (new_VError (Some (ve_name err)) (Some err)
                 [(''rpcMsgid'', JNum (int (frq_msgid (heap c ! a)))),
                  (''rpcMethod'', JStr (frq_rpcmethod (heap c ! a)))] [])\<rparr>"])
    fix k' a'
    assume "map_of (fc_aborted (c\<lparr>heap := (heap c)[a := (heap c ! a)\<lparr>frq_error := Some
              (new_VError (Some (ve_name err)) (Some err)
                 [(''rpcMsgid'', JNum (int (frq_msgid (heap c ! a)))),
                  (''rpcMethod'', JStr (frq_rpcmethod (heap c ! a)))] [])\<rparr>],
          fc_pending := AList.delete (frq_msgid (heap c ! a)) (fc_pending c),
          fc_nrpc_done := Suc (fc_nrpc_done c),
          fc_recentrpc := push_recent (fc_nrecent c) (fc_recentrpc c) a,
          immediates := immediates c @ [a]\<rparr>)) k' = Some a'"
    then have "map_of (fc_aborted c) k' = Some a'" by simp
    with aborted_not_pending [OF i p this]
    show "a' = a \<and> k' = k \<and>
         frq_aborted ((heap c ! a)\<lparr>frq_error := Some
              (new_VError (Some (ve_name err)) (Some err)
                 [(''rpcMsgid'', JNum (int (frq_msgid (heap c ! a)))),
                  (''rpcMethod'', JStr (frq_rpcmethod (heap c ! a)))] [])\<rparr>) \<and>
         \<not> frq_done_graceful ((heap c ! a)\<lparr>frq_error := Some
              (new_VError (Some (ve_name err)) (Some err)
                 [(''rpcMsgid'', JNum (int (frq_msgid (heap c ! a)))),
                  (''rpcMethod'', JStr (frq_rpcmethod (heap c ! a)))] [])\<rparr>) \<and>
         frq_error ((heap c ! a)\<lparr>frq_error := Some
              (new_VError (Some (ve_name err)) (Some err)
                 [(''rpcMsgid'', JNum (int (frq_msgid (heap c ! a)))),
                  (''rpcMethod'', JStr (frq_rpcmethod (heap c ! a)))] [])\<rparr>) \<noteq> None \<or>
         a' \<noteq> a \<and> map_of (fc_aborted c) k' = Some a'"
      by simp
  qed (use f in \<open>auto simp: requestIsPending_def\<close>)
  then show ?thesis
    using requestFail_eq [of a c err] f p by simp
qed

lemma requestAbort_inv:
  assumes i: "inv c" and a: "a < length (heap c)"
  shows "\<exists>c'. requestAbort c a cause = Inr c' \<and> inv c'"
proof (cases "requestIsPending (heap c ! a)")
  case False
  with i show ?thesis
    by (simp add: requestAbort_done)
next
  case True
  with i a have "map_of (fc_pending c) (frq_msgid (heap c ! a)) = Some a"
    by (simp add: inv_def listed_ok_def)
  from requestAbort_eq [OF a True this, of cause] inv_aborted [OF i a True, of cause]
  show ?thesis
    by simp
qed

lemma rpc_inv:
  assumes i: "inv c"
  shows "inv (state_after (perform c (Rpc meth args)))"
proof -
  obtain m c1 where al: "allocMessageId c = (m, c1)"
    by (cases "allocMessageId c")
  then have c1: "c1 = c\<lparr>fc_msgid := m\<rparr>"
    by (auto simp: allocMessageId_def Let_def split: if_splits)
  have i1: "inv c1"
    using i unfolding c1 by (rule inv_frame) simp_all
  show ?thesis
  proof (cases "map_of (fc_pending c1) m")
    case (Some b)
    then show ?thesis
      using i1 al
      by (simp add: perform_def rpc_def hasOwnProperty_def throw_def and_then_def
          state_after_def)
  next
    case None
    define c4 where "c4 = c1\<lparr>heap := heap c1 @ [FastRpcRequest m meth args],
      fc_pending := AList.update m (length (heap c1)) (fc_pending c1),
      fc_nrpc_started := Suc (fc_nrpc_started c1)\<rparr>"
    have i4: "inv c4"
      using i1 None unfolding c4_def
      by (rule inv_new_request [where r = "FastRpcRequest m meth args" and m = m])
        (simp_all add: FastRpcRequest_def requestIsPending_def)
    show ?thesis
    proof (cases "fc_detached c1 \<or> fc_transport_ended c1")
      case False
      have "rpc c meth args =
          Inr (c4\<lparr>written := written c4 @ [\<lparr>om_msgid = m, om_name = meth, om_d = args\<rparr>]\<rparr>,
               length (heap c1))"
        using al None False by (simp add: rpc_def hasOwnProperty_def c4_def Let_def)
      moreover have "inv (c4\<lparr>written := written c4 @ [\<lparr>om_msgid = m, om_name = meth, om_d = args\<rparr>]\<rparr>)"
        using i4 by (rule inv_frame) simp_all
      ultimately show ?thesis
        by (simp add: perform_def and_then_def state_after_def)
    next
      case True
      define a where "a = length (heap c1)"
      define c5 where "c5 = update_request a (\<lambda>r. r\<lparr>frq_skip := True\<rparr>) c4"
      have a4: "a < length (heap c4)"
        by (simp add: a_def c4_def)
      have i5: "inv c5"
        unfolding c5_def update_request_def
        by (rule inv_modify [OF i4 a4, where r' = "(heap c4 ! a)\<lparr>frq_skip := True\<rparr>"]) simp_all
      have p5: "map_of (fc_pending c5) m = Some a"
        by (simp add: c5_def update_request_def c4_def a_def update_conv')
      from requestFail_inv [OF i5 p5] obtain c6 where
        c6: "requestFail c5 a (new_VError (Some ''TransportError'') None [] ''transport detached'') = Inr c6"
          "inv c6"
        by blast
      have "rpc c meth args = Inr (c6, a)"
        using al None True c6(1)
        by (simp add: rpc_def hasOwnProperty_def Let_def and_then_def c5_def c4_def a_def)
      with c6(2) show ?thesis
        by (simp add: perform_def and_then_def state_after_def)
    qed
  qed
qed

lemma detach_inv:
  assumes i: "inv c"
  shows "inv (state_after (detach c))"
proof (cases "fc_detached c")
  case True
  with i show ?thesis
    by (simp add: detach_def state_after_def)
next
  case False
  have 1: "inv (c\<lparr>fc_detached := True\<rparr>)"
    using i by (rule inv_frame) simp_all
  have 2: "inv (c\<lparr>fc_detached := True, fc_transport := t\<rparr>)" for t
    using i by (rule inv_frame) simp_all
  show ?thesis
    using False 1 2
    by (simp add: detach_def state_after_def throw_def removeListener_def
        fc_transport_onerror_def Let_def split: option.splits)
qed

lemma run_immediate_inv:
  assumes i: "inv c"
  shows "inv (run_immediate c)"
proof (cases "immediates c")
  case Nil
  with i show ?thesis
    by (simp add: run_immediate_def)
next
  case (Cons a rest)
  have "inv (c\<lparr>immediates := rest,
      heap := (heap c)[a := (heap c ! a)\<lparr>frq_stream := frq_stream (heap c ! a) @ [Error (frq_error (heap c ! a))]\<rparr>]\<rparr>)"
    using i Cons by (rule inv_immediate) simp_all
  with Cons show ?thesis
    by (simp add: run_immediate_def update_request_def)
qed

lemma run_callback_state: "state_after (run_callback c) = run_immediate c"
  by (simp add: run_callback_def run_immediate_def state_after_def throw_def
      split: list.splits)

lemma perform_inv:
  assumes i: "inv c" and ok: "allowed c act"
  shows "inv (state_after (perform c act))"
proof (cases act)
  case OnError
  have "inv (c\<lparr>error_listeners := error_listeners c + 1\<rparr>)"
    using i by (rule inv_frame) simp_all
  with OnError show ?thesis
    by (simp add: perform_def state_after_def)
next
  case (Rpc meth args)
  with rpc_inv [OF i] show ?thesis by simp
next
  case (OnRequestError a)
  with ok have a: "a < length (heap c)" by simp
  have "inv (c\<lparr>heap := (heap c)[a := (heap c ! a)
      \<lparr>rq_error_listeners := rq_error_listeners (heap c ! a) + 1\<rparr>]\<rparr>)"
    by (rule inv_modify [OF i a, where r' = "(heap c ! a)
      \<lparr>rq_error_listeners := rq_error_listeners (heap c ! a) + 1\<rparr>"]) simp_all
  with OnRequestError show ?thesis
    by (simp add: perform_def state_after_def update_request_def)
next
  case (Abort a)
  with ok requestAbort_inv [OF i, of a None] show ?thesis
    by (auto simp: perform_def abort_def state_after_def)
next
  case Detach
  with detach_inv [OF i] show ?thesis
    by (simp add: perform_def)
next
  case (Message msg)
  with onMessage_inv [OF i, of msg] show ?thesis
    by (simp add: perform_def)
next
  case (DecoderError e)
  with fatalError_inv [OF i, of e] show ?thesis
    by (simp add: perform_def onDecoderError_def)
next
  case TransportEnd
  have 1: "inv (c\<lparr>fc_transport_ended := True\<rparr>)"
    using i by (rule inv_frame) simp_all
  have "inv (state_after (onTransportEnd c))"
  proof (cases "fc_nrpc_done c < fc_nrpc_started c")
    case True
    with fatalError_inv [OF 1] show ?thesis
      by (simp add: onTransportEnd_def)
  next
    case False
    with 1 show ?thesis
      by (simp add: onTransportEnd_def state_after_def)
  qed
  with i TransportEnd show ?thesis
    by (simp add: perform_def state_after_def)
next
  case (TransportError e)
  from fatalError_inv [OF i] have "inv (state_after (onTransportError c e))"
    by (simp add: onTransportError_def)
  with i TransportError show ?thesis
    by (simp add: perform_def state_after_def)
next
  case Immediate
  with run_immediate_inv [OF i] show ?thesis
    by (simp add: perform_def run_callback_state)
qed

lemma reach_inv: "reach c \<Longrightarrow> inv c"
  by (induction rule: reach.induct) (simp_all add: inv_FastClient perform_inv)

lemma one_terminal_last_scheduled:
  assumes "one_terminal_last (xs @ replicate n t)"
  shows "no_terminal xs \<or> one_terminal_last xs"
proof (cases n)
  case 0
  with assms show ?thesis by simp
next
  case (Suc k)
  have eq: "xs @ replicate (Suc k) t = (xs @ replicate k t) @ [t]"
    by (simp add: replicate_append_same)
  from assms have "one_terminal_last ((xs @ replicate k t) @ [t])"
    unfolding Suc eq .
  then have "no_terminal (xs @ replicate k t)"
    by (simp only: one_terminal_last_snoc)
  then show ?thesis
    by simp
qed

section \<open>The states of the examples\<close>

lemma reach_run:
  assumes "reach c" "allowed_all c acts"
  shows "reach (run c acts)"
  using assms
proof (induction acts arbitrary: c)
  case Nil
  then show ?case by simp
next
  case (Cons act acts)
  from Cons.prems have "reach (state_after (perform c act))"
    by (simp add: reach.step)
  with Cons show ?case
    by simp
qed

lemma one_request_facts:
  "fc_pending one_request = [(1, 0)]" "fc_aborted one_request = []"
  "fc_error one_request = None" "emitted one_request = []" "immediates one_request = []"
  "heap one_request = [(FastRpcRequest 1 ''testmethod'' [])\<lparr>rq_error_listeners := 1\<rparr>]"
  "fc_nerrors one_request = 0" "error_listeners one_request = 1"
  by (simp_all add: one_request_def test_setup_def state_after_def method_defs)

lemma reach_one_request: "reach one_request"
  unfolding one_request_def
  by (rule reach_run [OF reach.start])
    (simp add: test_setup_def state_after_def method_defs)

lemma unheard_request_facts:
  "fc_pending unheard_request = [(1, 0)]" "fc_aborted unheard_request = []"
  "fc_error unheard_request = None" "emitted unheard_request = []"
  "immediates unheard_request = []"
  "heap unheard_request = [FastRpcRequest 1 ''testmethod'' []]"
  "fc_nerrors unheard_request = 0" "error_listeners unheard_request = 0"
  by (simp_all add: unheard_request_def state_after_def method_defs)

lemma reach_unheard_request: "reach unheard_request"
  unfolding unheard_request_def
  by (rule reach_run [OF reach.start]) simp

lemma after_fatal_error_facts:
  "fc_pending after_fatal_error = [(1, 0)]" "fc_aborted after_fatal_error = []"
  "fc_error after_fatal_error = Some (unknown_msgid_error 47)"
  "emitted after_fatal_error = [unknown_msgid_error 47]"
  "fc_nerrors after_fatal_error = 1" "error_listeners after_fatal_error = 1"
  "immediates after_fatal_error = []"
  "heap after_fatal_error = [(FastRpcRequest 1 ''testmethod'' [])\<lparr>rq_error_listeners := 1\<rparr>]"
  by (simp_all add: after_fatal_error_def state_after_def method_defs unknown_msgid_error_def)

lemma reach_after_fatal_error: "reach after_fatal_error"
  unfolding after_fatal_error_def
  by (rule reach_run [OF reach.start]) (simp add: state_after_def method_defs)

section \<open>The end of the transport\<close>

text \<open>
  C8, as amended: the transport signals its end in a state the client can reach.  With no
  request pending nothing is raised: only \<open>fc_transport_ended\<close> is set.  With a
  request pending the \<open>FastProtocolError\<close> with the message \<open>unexpected end of
  transport stream\<close> goes to \<open>fatalError\<close> and is counted, so an error is
  counted if and only if a request is pending.  It is raised when it is the client's first
  fatal error: it is recorded in \<open>fc_error\<close> and emitted as the client's
  \<open>error\<close> event, and every pending request is aborted with it; when nobody
  listens for that event the emitter throws the recorded error out of the handler, before
  any request is aborted.  When the client has recorded a fatal error before, the new one
  is counted and nothing else changes.
\<close>

theorem onTransportEnd_fatal_iff_pending:
  assumes "reach c"
  shows "(fc_pending c = [] \<longrightarrow> onTransportEnd c = Inr (c\<lparr>fc_transport_ended := True\<rparr>))
    \<and> (fc_pending c \<noteq> [] \<longrightarrow>
         fatalError (c\<lparr>fc_transport_ended := True\<rparr>) unexpected_end = onTransportEnd c
         \<and> fc_nerrors (state_after (onTransportEnd c)) = Suc (fc_nerrors c))
    \<and> (fc_pending c \<noteq> [] \<and> fc_error c = None \<and> error_listeners c \<noteq> 0 \<longrightarrow>
         (\<exists>c'. onTransportEnd c = Inr c'
            \<and> fc_error c' = Some unexpected_end
            \<and> emitted c' = emitted c @ [unexpected_end]
            \<and> fc_pending c' = []
            \<and> (\<forall>k a. map_of (fc_pending c) k = Some a \<longrightarrow>
                  heap c' ! a = aborted_request (Some unexpected_end) (heap c ! a)
                  \<and> count_list (immediates c') a = 1)))
    \<and> (fc_pending c \<noteq> [] \<and> fc_error c = None \<and> error_listeners c = 0 \<longrightarrow>
         onTransportEnd c =
           Inl (Unhandled (Some unexpected_end),
                c\<lparr>fc_transport_ended := True, fc_nerrors := Suc (fc_nerrors c),
                  fc_error := Some unexpected_end\<rparr>))
    \<and> (fc_pending c \<noteq> [] \<and> fc_error c \<noteq> None \<longrightarrow>
         onTransportEnd c =
           Inr (c\<lparr>fc_transport_ended := True, fc_nerrors := Suc (fc_nerrors c)\<rparr>))
    \<and> ve_name unexpected_end = ''FastProtocolError''
    \<and> ve_message unexpected_end = ''unexpected end of transport stream''"
proof -
  let ?c1 = "c\<lparr>fc_transport_ended := True\<rparr>"
  from assms have i: "inv c"
    by (rule reach_inv)
  then have cnt: "fc_nrpc_started c = fc_nrpc_done c + length (fc_pending c)"
    by (simp add: inv_def counters_ok_def)
  have 1: "inv ?c1"
    using i by (rule inv_frame) simp_all
  have a: "onTransportEnd c = Inr ?c1" if "fc_pending c = []"
    using that cnt by (simp add: onTransportEnd_def)
  have e: "onTransportEnd c = fatalError ?c1 unexpected_end" if "fc_pending c \<noteq> []"
    using that cnt by (simp add: onTransportEnd_def unexpected_end_def)
  have later: "onTransportEnd c =
      Inr (c\<lparr>fc_transport_ended := True, fc_nerrors := Suc (fc_nerrors c)\<rparr>)"
    if "fc_pending c \<noteq> []" "fc_error c \<noteq> None"
    using that fatalError_later [of ?c1 unexpected_end] by (simp add: e)
  have unheard: "onTransportEnd c =
      Inl (Unhandled (Some unexpected_end),
           c\<lparr>fc_transport_ended := True, fc_nerrors := Suc (fc_nerrors c),
             fc_error := Some unexpected_end\<rparr>)"
    if "fc_pending c \<noteq> []" "fc_error c = None" "error_listeners c = 0"
    using that fatalError_unheard [of ?c1 unexpected_end] by (simp add: e)
  have first: "\<exists>c'. onTransportEnd c = Inr c'
            \<and> fc_error c' = Some unexpected_end
            \<and> emitted c' = emitted c @ [unexpected_end]
            \<and> fc_pending c' = []
            \<and> (\<forall>k a. map_of (fc_pending c) k = Some a \<longrightarrow>
                  heap c' ! a = aborted_request (Some unexpected_end) (heap c ! a)
                  \<and> count_list (immediates c') a = 1)"
    if p: "fc_pending c \<noteq> []" and n: "fc_error c = None" and l: "error_listeners c \<noteq> 0"
  proof -
    from fatalError_first [OF 1, of unexpected_end] n l obtain c' where
      c': "fatalError ?c1 unexpected_end = Inr c'" "fc_pending c' = []"
        "aborted_all (fst ` set (fc_pending c)) unexpected_end
           (c\<lparr>fc_transport_ended := True, fc_nerrors := Suc (fc_nerrors c),
              fc_error := Some unexpected_end, emitted := emitted c @ [unexpected_end]\<rparr>) c'"
      by auto
    have each: "heap c' ! a = aborted_request (Some unexpected_end) (heap c ! a)
        \<and> count_list (immediates c') a = 1"
      if m: "map_of (fc_pending c) k = Some a" for k a
    proof -
      note f = pending_facts [OF i m]
      from map_of_SomeD [OF m] have "fst (k, a) \<in> fst ` set (fc_pending c)"
        by (rule imageI)
      with m have ex: "\<exists>k\<in>fst ` set (fc_pending c). map_of (fc_pending c) k = Some a"
        by auto
      from c'(3) f(1) ex have "heap c' ! a = aborted_request (Some unexpected_end) (heap c ! a)"
        by (simp add: aborted_all_def)
      moreover from c'(3) ex f(8) have "count_list (immediates c') a = 1"
        by (simp add: aborted_all_def)
      ultimately show ?thesis ..
    qed
    have "fc_error c' = Some unexpected_end" "emitted c' = emitted c @ [unexpected_end]"
      using c'(3) by (simp_all add: aborted_all_def)
    with c'(1,2) each show ?thesis
      by (simp add: e [OF p])
  qed
  have count: "fc_nerrors (state_after (onTransportEnd c)) = Suc (fc_nerrors c)"
    if p: "fc_pending c \<noteq> []"
  proof (cases "fc_error c")
    case (Some x)
    with later [OF p] show ?thesis
      by (simp add: state_after_def)
  next
    case None
    show ?thesis
    proof (cases "error_listeners c = 0")
      case True
      with unheard [OF p None] show ?thesis
        by (simp add: state_after_def)
    next
      case False
      from fatalError_first [OF 1, of unexpected_end] None False obtain c' where
        "fatalError ?c1 unexpected_end = Inr c'"
        "aborted_all (fst ` set (fc_pending c)) unexpected_end
           (c\<lparr>fc_transport_ended := True, fc_nerrors := Suc (fc_nerrors c),
              fc_error := Some unexpected_end, emitted := emitted c @ [unexpected_end]\<rparr>) c'"
        by auto
      then show ?thesis
        by (simp add: e [OF p] state_after_def aborted_all_def)
    qed
  qed
  have n: "ve_name unexpected_end = ''FastProtocolError''"
    "ve_message unexpected_end = ''unexpected end of transport stream''"
    by (simp_all add: unexpected_end_def new_VError_def)
  show ?thesis
    using a e [symmetric] count first unheard later n by (intro conjI impI) simp_all
qed

theorem onTransportEnd_fatal_iff_pending_witness:
  "reach one_request \<and> fc_pending one_request \<noteq> [] \<and> fc_error one_request = None
   \<and> error_listeners one_request \<noteq> 0
   \<and> (\<exists>c'. onTransportEnd one_request = Inr c'
         \<and> fc_error c' = Some unexpected_end \<and> emitted c' = [unexpected_end]
         \<and> fc_pending c' = [])
   \<and> reach (FastClient 10 bare_transport) \<and> fc_pending (FastClient 10 bare_transport) = []
   \<and> onTransportEnd (FastClient 10 bare_transport)
       = Inr ((FastClient 10 bare_transport)\<lparr>fc_transport_ended := True\<rparr>)
   \<and> reach unheard_request \<and> fc_pending unheard_request \<noteq> []
   \<and> fc_error unheard_request = None \<and> error_listeners unheard_request = 0
   \<and> onTransportEnd unheard_request =
        Inl (Unhandled (Some unexpected_end),
             unheard_request\<lparr>fc_transport_ended := True, fc_nerrors := 1,
               fc_error := Some unexpected_end\<rparr>)"
proof -
  have 1: "fc_pending one_request \<noteq> []" "fc_error one_request = None"
    "error_listeners one_request \<noteq> 0"
    by (simp_all add: one_request_facts)
  have 2: "fc_pending (FastClient 10 bare_transport) = []"
    by (simp add: method_defs)
  from onTransportEnd_fatal_iff_pending [OF reach_one_request] 1
  have "\<exists>c'. onTransportEnd one_request = Inr c'
            \<and> fc_error c' = Some unexpected_end
            \<and> emitted c' = emitted one_request @ [unexpected_end]
            \<and> fc_pending c' = []
            \<and> (\<forall>k a. map_of (fc_pending one_request) k = Some a \<longrightarrow>
                  heap c' ! a = aborted_request (Some unexpected_end) (heap one_request ! a)
                  \<and> count_list (immediates c') a = 1)"
    by blast
  then have 3: "\<exists>c'. onTransportEnd one_request = Inr c'
         \<and> fc_error c' = Some unexpected_end \<and> emitted c' = [unexpected_end]
         \<and> fc_pending c' = []"
    by (auto simp: one_request_facts)
  from onTransportEnd_fatal_iff_pending [OF reach.start, of 10 bare_transport] 2
  have 4: "onTransportEnd (FastClient 10 bare_transport)
       = Inr ((FastClient 10 bare_transport)\<lparr>fc_transport_ended := True\<rparr>)"
    by blast
  have 5: "fc_pending unheard_request \<noteq> []" "fc_error unheard_request = None"
    "error_listeners unheard_request = 0"
    by (simp_all add: unheard_request_facts)
  from onTransportEnd_fatal_iff_pending [OF reach_unheard_request] 5
  have "onTransportEnd unheard_request =
        Inl (Unhandled (Some unexpected_end),
             unheard_request\<lparr>fc_transport_ended := True,
               fc_nerrors := Suc (fc_nerrors unheard_request),
               fc_error := Some unexpected_end\<rparr>)"
    by blast
  then have 6: "onTransportEnd unheard_request =
        Inl (Unhandled (Some unexpected_end),
             unheard_request\<lparr>fc_transport_ended := True, fc_nerrors := 1,
               fc_error := Some unexpected_end\<rparr>)"
    by (simp add: unheard_request_facts)
  from reach_one_request 1 3 reach.start [of 10 bare_transport] 2 4
    reach_unheard_request 5 6
  show ?thesis
    by (intro conjI)
qed

text \<open>
  C8 as stated fails where the client has already recorded a fatal error.  After a message
  with the unknown id 47 the caller issues a request, which \<open>rpc\<close> accepts, and
  the transport ends while it is pending.  The handler counts the error and returns: the
  client's \<open>error\<close> event is not emitted again, the recorded error is still the
  earlier one, and the request stays pending.
\<close>

theorem onTransportEnd_after_fatal_counterexample:
  "reach after_fatal_error
   \<and> fc_pending after_fatal_error = [(1, 0)]
   \<and> requestIsPending (heap after_fatal_error ! 0)
   \<and> fc_error after_fatal_error = Some (unknown_msgid_error 47)
   \<and> emitted after_fatal_error = [unknown_msgid_error 47]
   \<and> unknown_msgid_error 47 \<noteq> unexpected_end
   \<and> onTransportEnd after_fatal_error =
       Inr (after_fatal_error\<lparr>fc_transport_ended := True, fc_nerrors := 2\<rparr>)"
proof -
  have "onTransportEnd after_fatal_error =
       Inr (after_fatal_error\<lparr>fc_transport_ended := True, fc_nerrors := 2\<rparr>)"
    by (simp add: after_fatal_error_def state_after_def method_defs)
  moreover have "requestIsPending (heap after_fatal_error ! 0)"
    by (simp add: after_fatal_error_facts FastRpcRequest_def requestIsPending_def)
  moreover have "unknown_msgid_error 47 \<noteq> unexpected_end"
    by (simp add: unknown_msgid_error_def unexpected_end_def new_VError_def)
  ultimately show ?thesis
    using reach_after_fatal_error after_fatal_error_facts(1,3,4) by (intro conjI)
qed

section \<open>A message with an unknown id\<close>

text \<open>
  C5 (the code at the failing input): the test case \<open>server responds with wrong
  msgid\<close>, where the server answers the pending request 1 with an END for the id
  47.  The client emits the \<open>FastProtocolError\<close> with the message the claim
  gives, and the request leaves the pending table.  But the error the request delivers is
  named \<open>RequestAbortedError\<close>, its message starts with the colon that precedes
  the message of its cause, and its cause is the \<open>RequestAbortedError\<close> that
  \<open>requestAbort\<close> puts around the protocol error: the protocol error is the
  cause of the cause.
\<close>

theorem onMessage_unknown_msgid_delivered_error:
  "map_option (\<lambda>c. (map (\<lambda>e. (ve_name e, ve_message e)) (emitted c), fc_pending c))
     (returned
        (perform_all (FastClient 10 bare_transport)
           (test_setup @ [Message (FP_STATUS_END 47 [dummyValue]), Immediate])))
   = Some ([(''FastProtocolError'',
             ''fast protocol: received message with unknown msgid 47'')], [])
   \<and> map (\<lambda>e. (ve_name e, ve_message e, map_option ve_name (ve_cause e),
                map_option (\<lambda>w. map_option ve_name (ve_cause w)) (ve_cause e)))
       (errors_of
          (perform_all (FastClient 10 bare_transport)
             (test_setup @ [Message (FP_STATUS_END 47 [dummyValue]), Immediate])) 0)
   = [(''RequestAbortedError'',
       '': request aborted: fast protocol: received message with unknown msgid 47'',
       Some ''RequestAbortedError'',
       Some (Some ''FastProtocolError''))]"
  by (simp add: method_defs test_setup_def)

section \<open>Running the deferred callbacks\<close>

lemma run_immediate_fields:
  "immediates (run_immediate c) = tl (immediates c)"
  "length (heap (run_immediate c)) = length (heap c)"
  by (simp_all add: run_immediate_def update_request_def split: list.splits)

lemma run_immediate_pending:
  "requestIsPending (heap (run_immediate c) ! a) = requestIsPending (heap c ! a)"
proof (cases "immediates c")
  case Nil
  then show ?thesis
    by (simp add: run_immediate_def)
next
  case (Cons b rest)
  show ?thesis
  proof (cases "b = a \<and> b < length (heap c)")
    case True
    with Cons show ?thesis
      by (simp add: run_immediate_def update_request_def requestIsPending_def)
  next
    case False
    then have "(heap c)[b := x] ! a = heap c ! a" for x
      by (cases "b = a") (simp_all add: list_update_beyond)
    with Cons show ?thesis
      by (simp add: run_immediate_def update_request_def)
  qed
qed

lemma reach_run_immediate: "reach c \<Longrightarrow> reach (run_immediate c)"
  using reach.step [of c Immediate] by (simp add: perform_def run_callback_state)

lemma run_immediates:
  "immediates ((run_immediate ^^ n) c) = drop n (immediates c)"
  "length (heap ((run_immediate ^^ n) c)) = length (heap c)"
  "requestIsPending (heap ((run_immediate ^^ n) c) ! a) = requestIsPending (heap c ! a)"
  "reach c \<Longrightarrow> reach ((run_immediate ^^ n) c)"
  by (induction n)
    (simp_all add: run_immediate_fields run_immediate_pending reach_run_immediate drop_Suc
      tl_drop)

lemma drain_facts:
  "immediates (drain c) = []" "length (heap (drain c)) = length (heap c)"
  "requestIsPending (heap (drain c) ! a) = requestIsPending (heap c ! a)"
  "reach c \<Longrightarrow> reach (drain c)"
  by (simp_all add: drain_def run_immediates)

lemma onMessage_unknown:
  assumes "map_of (fc_pending c) (msgid msg) = None" "map_of (fc_aborted c) (msgid msg) = None"
  shows "onMessage c msg = fatalError c (unknown_msgid_error (msgid msg))"
  using assms by (simp add: onMessage_def unknown_msgid_error_def)

section \<open>Aborting a request\<close>

lemma run_immediate_request:
  assumes "a < length (heap c)"
  shows "heap (run_immediate c) ! a =
    (case immediates c of
       [] \<Rightarrow> heap c ! a
     | b # rest \<Rightarrow>
         if b = a
         then (heap c ! a)\<lparr>frq_stream := frq_stream (heap c ! a) @ [Error (frq_error (heap c ! a))]\<rparr>
         else heap c ! a)"
  using assms by (simp add: run_immediate_def update_request_def split: list.splits)

lemma run_immediates_stream:
  assumes "a < length (heap c)"
  shows "frq_stream (heap ((run_immediate ^^ n) c) ! a) =
      frq_stream (heap c ! a) @
        replicate (count_list (take n (immediates c)) a) (Error (frq_error (heap c ! a)))
    \<and> frq_error (heap ((run_immediate ^^ n) c) ! a) = frq_error (heap c ! a)"
  using assms
proof (induction n arbitrary: c)
  case 0
  then show ?case by simp
next
  case (Suc n)
  have len: "a < length (heap (run_immediate c))"
    using Suc.prems by (simp add: run_immediate_fields)
  note ih = Suc.IH [OF len]
  have step: "(run_immediate ^^ Suc n) c = (run_immediate ^^ n) (run_immediate c)"
    by (simp add: funpow_swap1)
  show ?case
  proof (cases "immediates c")
    case Nil
    then have "run_immediate c = c"
      by (simp add: run_immediate_def)
    with ih Nil show ?thesis
      by (simp add: step del: funpow.simps)
  next
    case (Cons b rest)
    show ?thesis
    proof (cases "b = a")
      case True
      with ih Cons Suc.prems show ?thesis
        by (simp add: step run_immediate_request run_immediate_fields
            replicate_append_same del: funpow.simps)
    next
      case False
      with ih Cons Suc.prems show ?thesis
        by (simp add: step run_immediate_request run_immediate_fields del: funpow.simps)
    qed
  qed
qed

lemma drain_stream:
  assumes "a < length (heap c)"
  shows "frq_stream (heap (drain c) ! a) = frq_stream (heap c ! a) @ scheduled c a"
  using run_immediates_stream [OF assms, of "length (immediates c)"]
  by (simp add: drain_def scheduled_def)

lemma emits_from_append:
  "emits_from e (xs @ ys) = emits_from e xs @ emits_from (e \<or> ended xs) ys"
proof (induction xs arbitrary: e)
  case Nil
  then show ?case
    by (simp add: ended_def)
next
  case (Cons x xs)
  show ?case
  proof (cases x)
    case (Data d)
    with Cons show ?thesis
      by (cases "d = JNull") (auto simp: ended_def)
  next
    case End
    with Cons show ?thesis
      by (auto simp: ended_def)
  next
    case (Error v)
    with Cons show ?thesis
      by (auto simp: ended_def)
  qed
qed

lemma emits_snoc_Error: "emits (xs @ [Error v]) = emits xs @ [Error v]"
  by (simp add: emits_def emits_from_append)

lemma emits_plain:
  assumes "Data JNull \<notin> set xs" "no_terminal xs \<or> one_terminal_last xs"
  shows "emits xs = xs"
proof -
  have data: "emits_from False ys = ys" if "Data JNull \<notin> set ys" "no_terminal ys" for ys
    using that
  proof (induction ys)
    case Nil
    then show ?case by simp
  next
    case (Cons y ys)
    then show ?case
      by (cases y) (auto simp: no_terminal_def)
  qed
  from assms(2) show ?thesis
  proof
    assume "no_terminal xs"
    with assms(1) show ?thesis
      by (simp add: emits_def data)
  next
    assume o: "one_terminal_last xs"
    then have ne: "xs \<noteq> []"
      by (simp add: one_terminal_last_def)
    then have xs: "xs = butlast xs @ [last xs]"
      by simp
    from o have b: "no_terminal (butlast xs)" and l: "\<not> is_data (last xs)"
      by (simp_all add: one_terminal_last_def no_terminal_def)
    from assms(1) have nb: "Data JNull \<notin> set (butlast xs)"
      by (auto dest: in_set_butlastD)
    have nd: "\<not> ended (butlast xs)"
      using nb b by (auto simp: ended_def no_terminal_def list_all_iff)
    have "emits_from False (butlast xs @ [last xs]) = butlast xs @ [last xs]"
      using l nd by (cases "last xs") (simp_all add: emits_from_append data [OF nb b])
    with xs show ?thesis
      by (simp add: emits_def)
  qed
qed

lemma onMessage_ignored:
  assumes "inv c" "discarding c k a" "msgid x = k" "\<not> is_END x"
  shows "onMessage c x = Inr (c\<lparr>heap := (heap c)[a := ignored x (heap c ! a)]\<rparr>)"
proof -
  from assms(2) have t: "map_of (fc_pending c) k = None" "map_of (fc_aborted c) k = Some a"
    by (simp_all add: discarding_def)
  show ?thesis
    using assms(3,4) onMessage_aborted_DATA [OF assms(1) t] onMessage_aborted_ERROR [OF assms(1) t]
    by (cases x) (simp_all add: ignored_def)
qed

lemma onMessage_END_aborted:
  assumes "inv c" "discarding c k a"
  shows "onMessage c (FP_STATUS_END k ds) =
    Inr (c\<lparr>heap := (heap c)[a := (heap c ! a)\<lparr>frq_last := Some (FP_STATUS_END k ds)\<rparr>],
          fc_aborted := AList.delete k (fc_aborted c)\<rparr>)"
  using assms(2) onMessage_aborted_END [OF assms(1), of k a ds] by (simp add: discarding_def)

lemma not_pending_address:
  assumes "inv c" "discarding c k a"
  shows "map_of (fc_pending c) k' \<noteq> Some a"
proof
  assume p: "map_of (fc_pending c) k' = Some a"
  from assms(2) have "map_of (fc_aborted c) k = Some a"
    by (simp add: discarding_def)
  from aborted_not_pending [OF assms(1) p this] show False
    by simp
qed

lemma fatalError_kept:
  assumes i: "inv c" and d: "discarding c k a"
  shows "discarding (state_after (fatalError c err)) k a
    \<and> heap (state_after (fatalError c err)) ! a = heap c ! a"
proof (cases "fc_error c")
  case (Some e)
  with d show ?thesis
    by (simp add: fatalError_later state_after_def discarding_def)
next
  case None
  show ?thesis
  proof (cases "error_listeners c = 0")
    case True
    with None d show ?thesis
      by (simp add: fatalError_unheard state_after_def discarding_def)
  next
    case False
    from d have ab: "map_of (fc_aborted c) k = Some a" and np: "map_of (fc_pending c) k = None"
      by (simp_all add: discarding_def)
    note a = aborted_facts(1) [OF i ab]
    from fatalError_first [OF i None False, of err] obtain c' where
      c': "fatalError c err = Inr c'" "fc_pending c' = []"
        "aborted_all (fst ` set (fc_pending c)) err
           (c\<lparr>fc_nerrors := Suc (fc_nerrors c), fc_error := Some err,
              emitted := emitted c @ [err]\<rparr>) c'"
      by blast
    have no: "\<not> (\<exists>k'\<in>fst ` set (fc_pending c). map_of (fc_pending c) k' = Some a)"
      using not_pending_address [OF i d] by blast
    from c'(3) a no have h: "heap c' ! a = heap c ! a"
      by (simp add: aborted_all_def)
    from c'(3) np ab have "map_of (fc_aborted c') k = Some a"
      by (simp add: aborted_all_def)
    with c'(1,2) h show ?thesis
      by (simp add: state_after_def discarding_def)
  qed
qed

lemma onMessage_kept:
  assumes i: "inv c" and d: "discarding c k a" and x: "msgid x \<noteq> k"
  shows "discarding (state_after (onMessage c x)) k a
    \<and> heap (state_after (onMessage c x)) ! a = heap c ! a"
proof -
  from d have ab: "map_of (fc_aborted c) k = Some a" and np: "map_of (fc_pending c) k = None"
    by (simp_all add: discarding_def)
  note fa = aborted_facts [OF i ab]
  show ?thesis
  proof (cases "map_of (fc_pending c) (msgid x)")
    case (Some b)
    from not_pending_address [OF i d, of "msgid x"] Some have ba: "b \<noteq> a"
      by auto
    show ?thesis
    proof (cases x)
      case (FP_STATUS_DATA m ds)
      with Some have p: "map_of (fc_pending c) m = Some b" by simp
      from onMessage_pending_DATA [OF i p, of ds] obtain ds' where
        "state_after (onMessage c (FP_STATUS_DATA m ds)) =
          c\<lparr>heap := (heap c)[b := (heap c ! b)
            \<lparr>frq_last := Some (FP_STATUS_DATA m ds),
             frq_ndata := Suc (frq_ndata (heap c ! b)),
             frq_stream := frq_stream (heap c ! b) @ map Data ds'\<rparr>]\<rparr>" ..
      with d ba FP_STATUS_DATA show ?thesis
        by (simp add: discarding_def)
    next
      case (FP_STATUS_END m ds)
      with Some x have p: "map_of (fc_pending c) m = Some b" and mk: "m \<noteq> k" by simp_all
      from onMessage_pending_END [OF i p, of ds] d ba mk FP_STATUS_END show ?thesis
        by (simp add: state_after_def discarding_def delete_conv')
    next
      case (FP_STATUS_ERROR m e)
      with Some x have p: "map_of (fc_pending c) m = Some b" and mk: "m \<noteq> k" by simp_all
      from onMessage_pending_ERROR [OF i p, of e] d ba mk FP_STATUS_ERROR show ?thesis
        by (simp add: state_after_def discarding_def delete_conv')
    qed
  next
    case None
    show ?thesis
    proof (cases "map_of (fc_aborted c) (msgid x)")
      case (Some b)
      from aborted_facts(2) [OF i Some] fa(2) x have ba: "b \<noteq> a"
        by auto
      show ?thesis
      proof (cases x)
        case (FP_STATUS_DATA m ds)
        with None Some have t: "map_of (fc_pending c) m = None" "map_of (fc_aborted c) m = Some b"
          by simp_all
        from onMessage_aborted_DATA [OF i t, of ds] d ba FP_STATUS_DATA show ?thesis
          by (simp add: state_after_def discarding_def)
      next
        case (FP_STATUS_END m ds)
        with None Some x have t: "map_of (fc_pending c) m = None" "map_of (fc_aborted c) m = Some b"
          and mk: "m \<noteq> k"
          by simp_all
        from onMessage_aborted_END [OF i t, of ds] d ba mk FP_STATUS_END show ?thesis
          by (simp add: state_after_def discarding_def delete_conv')
      next
        case (FP_STATUS_ERROR m e)
        with None Some have t: "map_of (fc_pending c) m = None" "map_of (fc_aborted c) m = Some b"
          by simp_all
        from onMessage_aborted_ERROR [OF i t, of e] d ba FP_STATUS_ERROR show ?thesis
          by (simp add: state_after_def discarding_def)
      qed
    next
      case None': None
      from None None' have "onMessage c x = fatalError c (unknown_msgid_error (msgid x))"
        by (rule onMessage_unknown)
      with fatalError_kept [OF i d] show ?thesis
        by simp
    qed
  qed
qed

lemma abort_kept:
  assumes i: "inv c" and d: "discarding c k a" and b: "b < length (heap c)"
  shows "discarding (state_after (abort c b)) k a
    \<and> heap (state_after (abort c b)) ! a = heap c ! a"
proof (cases "requestIsPending (heap c ! b)")
  case False
  with d show ?thesis
    by (simp add: abort_def requestAbort_done state_after_def)
next
  case True
  with i b have p: "map_of (fc_pending c) (frq_msgid (heap c ! b)) = Some b"
    by (simp add: inv_def listed_ok_def)
  from not_pending_address [OF i d, of "frq_msgid (heap c ! b)"] p have ba: "b \<noteq> a"
    by auto
  from d p have kk: "frq_msgid (heap c ! b) \<noteq> k"
    by (auto simp: discarding_def)
  from requestAbort_eq [OF b True p, of None] d ba kk show ?thesis
    by (simp add: abort_def state_after_def discarding_def delete_conv' update_conv')
qed

lemma detach_kept:
  assumes "discarding c k a"
  shows "discarding (state_after (detach c)) k a
    \<and> heap (state_after (detach c)) ! a = heap c ! a"
  using assms
  by (simp add: detach_def state_after_def throw_def removeListener_def
      fc_transport_onerror_def Let_def discarding_def split: option.splits)

lemma rpc_kept:
  assumes i: "inv c" and d: "discarding c k a" and fresh: "fst (allocMessageId c) \<noteq> k"
  shows "discarding (state_after (perform c (Rpc meth args))) k a
    \<and> heap (state_after (perform c (Rpc meth args))) ! a = heap c ! a"
proof -
  from d have ab: "map_of (fc_aborted c) k = Some a" and np: "map_of (fc_pending c) k = None"
    by (simp_all add: discarding_def)
  note a = aborted_facts(1) [OF i ab]
  obtain m c1 where al: "allocMessageId c = (m, c1)"
    by (cases "allocMessageId c")
  then have c1: "c1 = c\<lparr>fc_msgid := m\<rparr>"
    by (auto simp: allocMessageId_def Let_def split: if_splits)
  from al fresh have mk: "m \<noteq> k"
    by simp
  have i1: "inv c1"
    using i unfolding c1 by (rule inv_frame) simp_all
  show ?thesis
  proof (cases "map_of (fc_pending c1) m")
    case (Some b)
    then show ?thesis
      using al c1 d
      by (simp add: perform_def rpc_def hasOwnProperty_def throw_def and_then_def
          state_after_def discarding_def)
  next
    case None
    define c4 where "c4 = c1\<lparr>heap := heap c1 @ [FastRpcRequest m meth args],
      fc_pending := AList.update m (length (heap c1)) (fc_pending c1),
      fc_nrpc_started := Suc (fc_nrpc_started c1)\<rparr>"
    have i4: "inv c4"
      using i1 None unfolding c4_def
      by (rule inv_new_request [where r = "FastRpcRequest m meth args" and m = m])
        (simp_all add: FastRpcRequest_def requestIsPending_def)
    have k4: "discarding c4 k a" "heap c4 ! a = heap c ! a"
      using d mk a by (simp_all add: c4_def c1 discarding_def update_conv' nth_append)
    show ?thesis
    proof (cases "fc_detached c1 \<or> fc_transport_ended c1")
      case False
      have "rpc c meth args =
          Inr (c4\<lparr>written := written c4 @ [\<lparr>om_msgid = m, om_name = meth, om_d = args\<rparr>]\<rparr>,
               length (heap c1))"
        using al None False by (simp add: rpc_def hasOwnProperty_def c4_def Let_def)
      with k4 show ?thesis
        by (simp add: perform_def and_then_def state_after_def discarding_def)
    next
      case True
      define b where "b = length (heap c1)"
      define c5 where "c5 = update_request b (\<lambda>r. r\<lparr>frq_skip := True\<rparr>) c4"
      have b4: "b < length (heap c4)"
        by (simp add: b_def c4_def)
      have ba: "b \<noteq> a"
        using a by (simp add: b_def c1)
      have i5: "inv c5"
        unfolding c5_def update_request_def
        by (rule inv_modify [OF i4 b4, where r' = "(heap c4 ! b)\<lparr>frq_skip := True\<rparr>"]) simp_all
      have p5: "map_of (fc_pending c5) m = Some b"
        by (simp add: c5_def update_request_def c4_def b_def update_conv')
      have k5: "discarding c5 k a" "heap c5 ! a = heap c ! a"
        using k4 ba by (simp_all add: c5_def update_request_def discarding_def)
      note f5 = pending_facts [OF i5 p5]
      define c6 where "c6 = c5\<lparr>heap := (heap c5)[b := (heap c5 ! b)\<lparr>frq_error := Some
              (new_VError (Some (ve_name (new_VError (Some ''TransportError'') None [] ''transport detached'')))
                 (Some (new_VError (Some ''TransportError'') None [] ''transport detached''))
                 [(''rpcMsgid'', JNum (int (frq_msgid (heap c5 ! b)))),
                  (''rpcMethod'', JStr (frq_rpcmethod (heap c5 ! b)))] [])\<rparr>],
          fc_pending := AList.delete (frq_msgid (heap c5 ! b)) (fc_pending c5),
          fc_nrpc_done := Suc (fc_nrpc_done c5),
          fc_recentrpc := push_recent (fc_nrecent c5) (fc_recentrpc c5) b,
          immediates := immediates c5 @ [b]\<rparr>"
      have s6: "requestFail c5 b (new_VError (Some ''TransportError'') None [] ''transport detached'')
          = Inr c6"
        unfolding c6_def using f5(1,6) p5 f5(2) by (intro requestFail_eq) simp_all
      have k6: "discarding c6 k a" "heap c6 ! a = heap c ! a"
        using k5 ba by (simp_all add: c6_def discarding_def delete_conv')
      have "rpc c meth args = Inr (c6, b)"
        using al None True s6
        by (simp add: rpc_def hasOwnProperty_def Let_def and_then_def c5_def c4_def b_def)
      with k6 show ?thesis
        by (simp add: perform_def and_then_def state_after_def)
    qed
  qed
qed

lemma aborted_entry_kept:
  assumes i: "inv c" and d: "discarding c k a" and ok: "allowed c act"
    and nm: "\<forall>x. act = Message x \<longrightarrow> msgid x \<noteq> k"
    and nr: "\<forall>meth args. act = Rpc meth args \<longrightarrow> fst (allocMessageId c) \<noteq> k"
  shows "discarding (state_after (perform c act)) k a
    \<and> (heap (state_after (perform c act)) ! a = heap c ! a
        \<or> heap (state_after (perform c act)) ! a =
            (heap c ! a)\<lparr>rq_error_listeners := Suc (rq_error_listeners (heap c ! a))\<rparr>
        \<or> act = Immediate \<and> heap (state_after (perform c act)) ! a =
            (heap c ! a)\<lparr>frq_stream := frq_stream (heap c ! a) @ [Error (frq_error (heap c ! a))]\<rparr>)"
proof -
  from d have ab: "map_of (fc_aborted c) k = Some a"
    by (simp add: discarding_def)
  note a = aborted_facts(1) [OF i ab]
  show ?thesis
  proof (cases act)
    case OnError
    with d show ?thesis
      by (simp add: perform_def state_after_def discarding_def)
  next
    case (Rpc meth args)
    with nr have "fst (allocMessageId c) \<noteq> k"
      by blast
    from rpc_kept [OF i d this] Rpc show ?thesis
      by simp
  next
    case (OnRequestError b)
    with d a show ?thesis
      by (cases "b = a")
        (simp_all add: perform_def state_after_def discarding_def update_request_def)
  next
    case (Abort b)
    with ok abort_kept [OF i d, of b] show ?thesis
      by (simp add: perform_def)
  next
    case Detach
    with detach_kept [OF d] show ?thesis
      by (simp add: perform_def)
  next
    case (Message x)
    with nm have "msgid x \<noteq> k"
      by blast
    from onMessage_kept [OF i d this] Message show ?thesis
      by (simp add: perform_def)
  next
    case (DecoderError e)
    with fatalError_kept [OF i d] show ?thesis
      by (simp add: perform_def onDecoderError_def)
  next
    case TransportEnd
    have 1: "inv (c\<lparr>fc_transport_ended := True\<rparr>)"
      using i by (rule inv_frame) simp_all
    have 2: "discarding (c\<lparr>fc_transport_ended := True\<rparr>) k a"
      using d by (simp add: discarding_def)
    have "discarding (state_after (onTransportEnd c)) k a
        \<and> heap (state_after (onTransportEnd c)) ! a = heap c ! a"
    proof (cases "fc_nrpc_done c < fc_nrpc_started c")
      case True
      with fatalError_kept [OF 1 2] show ?thesis
        by (simp add: onTransportEnd_def)
    next
      case False
      with 2 show ?thesis
        by (simp add: onTransportEnd_def state_after_def discarding_def)
    qed
    with d TransportEnd show ?thesis
      by (simp add: perform_def state_after_def)
  next
    case (TransportError e)
    from fatalError_kept [OF i d]
    have "discarding (state_after (onTransportError c e)) k a
        \<and> heap (state_after (onTransportError c e)) ! a = heap c ! a"
      by (simp add: onTransportError_def)
    with d TransportError show ?thesis
      by (simp add: perform_def state_after_def)
  next
    case Immediate
    have "discarding (run_immediate c) k a"
      using d by (simp add: discarding_def run_immediate_def update_request_def split: list.splits)
    with Immediate run_immediate_request [OF a] show ?thesis
      by (auto simp: perform_def run_callback_state split: list.splits)
  qed
qed

lemma discarding_facts:
  assumes i: "inv c" and d: "discarding c k a"
  shows "(\<forall>x. msgid x = k \<and> \<not> is_END x \<longrightarrow>
            onMessage c x = Inr (c\<lparr>heap := (heap c)[a := ignored x (heap c ! a)]\<rparr>))
    \<and> (\<forall>ds. onMessage c (FP_STATUS_END k ds) =
            Inr (c\<lparr>heap := (heap c)[a := (heap c ! a)\<lparr>frq_last := Some (FP_STATUS_END k ds)\<rparr>],
                  fc_aborted := AList.delete k (fc_aborted c)\<rparr>)
          \<and> map_of (AList.delete k (fc_aborted c)) k = None)
    \<and> (\<forall>act. allowed c act \<and> (\<forall>x. act = Message x \<longrightarrow> msgid x \<noteq> k)
            \<and> (\<forall>meth args. act = Rpc meth args \<longrightarrow> fst (allocMessageId c) \<noteq> k) \<longrightarrow>
          discarding (state_after (perform c act)) k a
          \<and> frq_nignored (heap (state_after (perform c act)) ! a) = frq_nignored (heap c ! a)
          \<and> frq_last (heap (state_after (perform c act)) ! a) = frq_last (heap c ! a)
          \<and> frq_error (heap (state_after (perform c act)) ! a) = frq_error (heap c ! a)
          \<and> (act \<noteq> Immediate \<longrightarrow>
                frq_stream (heap (state_after (perform c act)) ! a) = frq_stream (heap c ! a))
          \<and> (act = Immediate \<longrightarrow>
                frq_stream (heap (state_after (perform c act)) ! a) = frq_stream (heap c ! a)
                \<or> frq_stream (heap (state_after (perform c act)) ! a) =
                    frq_stream (heap c ! a) @ [Error (frq_error (heap c ! a))]))"
proof (intro conjI allI impI)
  fix x assume "msgid x = k \<and> \<not> is_END x"
  then show "onMessage c x = Inr (c\<lparr>heap := (heap c)[a := ignored x (heap c ! a)]\<rparr>)"
    using onMessage_ignored [OF i d] by blast
next
  fix ds
  show "onMessage c (FP_STATUS_END k ds) =
      Inr (c\<lparr>heap := (heap c)[a := (heap c ! a)\<lparr>frq_last := Some (FP_STATUS_END k ds)\<rparr>],
            fc_aborted := AList.delete k (fc_aborted c)\<rparr>)"
    using i d by (rule onMessage_END_aborted)
  show "map_of (AList.delete k (fc_aborted c)) k = None"
    by (simp add: delete_conv')
next
  fix act
  assume h: "allowed c act \<and> (\<forall>x. act = Message x \<longrightarrow> msgid x \<noteq> k)
      \<and> (\<forall>meth args. act = Rpc meth args \<longrightarrow> fst (allocMessageId c) \<noteq> k)"
  then have ok: "allowed c act" and nm: "\<forall>x. act = Message x \<longrightarrow> msgid x \<noteq> k"
    and nr: "\<forall>meth args. act = Rpc meth args \<longrightarrow> fst (allocMessageId c) \<noteq> k"
    by blast+
  note k = aborted_entry_kept [OF i d ok nm nr]
  from k show "discarding (state_after (perform c act)) k a"
    by blast
  from k show "frq_nignored (heap (state_after (perform c act)) ! a) = frq_nignored (heap c ! a)"
    by auto
  from k show "frq_last (heap (state_after (perform c act)) ! a) = frq_last (heap c ! a)"
    by auto
  from k show "frq_error (heap (state_after (perform c act)) ! a) = frq_error (heap c ! a)"
    by auto
  from k show "frq_stream (heap (state_after (perform c act)) ! a) = frq_stream (heap c ! a)"
    if "act \<noteq> Immediate"
    using that by auto
  from k show "frq_stream (heap (state_after (perform c act)) ! a) = frq_stream (heap c ! a)
      \<or> frq_stream (heap (state_after (perform c act)) ! a) =
          frq_stream (heap c ! a) @ [Error (frq_error (heap c ! a))]"
    by auto
qed



section \<open>Streams only grow\<close>

lemma streams_grow_refl [simp]: "streams_grow c c"
  by (simp add: streams_grow_def)

lemma streams_grow_trans:
  assumes "streams_grow c c1" "streams_grow c1 c2"
  shows "streams_grow c c2"
  unfolding streams_grow_def
proof (intro conjI allI impI)
  show "length (heap c) \<le> length (heap c2)"
    using assms by (simp add: streams_grow_def)
  fix a assume a: "a < length (heap c)"
  with assms(1) obtain ys where ys: "frq_stream (heap c1 ! a) = frq_stream (heap c ! a) @ ys"
    by (auto simp: streams_grow_def)
  from a assms(1) have "a < length (heap c1)"
    by (simp add: streams_grow_def)
  with assms(2) obtain zs where "frq_stream (heap c2 ! a) = frq_stream (heap c1 ! a) @ zs"
    by (auto simp: streams_grow_def)
  with ys show "\<exists>ys. frq_stream (heap c2 ! a) = frq_stream (heap c ! a) @ ys"
    by simp
qed

lemma streams_grow_heap:
  assumes "length (heap c') = length (heap c)"
    "\<And>a. a < length (heap c) \<Longrightarrow> \<exists>ys. frq_stream (heap c' ! a) = frq_stream (heap c ! a) @ ys"
  shows "streams_grow c c'"
  using assms by (simp add: streams_grow_def)

lemma streams_grow_update:
  assumes h: "heap c' = (heap c)[a := r']"
    and s: "\<exists>ys. frq_stream r' = frq_stream (heap c ! a) @ ys"
  shows "streams_grow c c'"
  unfolding streams_grow_def
proof (intro conjI allI impI)
  show "length (heap c) \<le> length (heap c')"
    by (simp add: h)
  fix b assume b: "b < length (heap c)"
  show "\<exists>ys. frq_stream (heap c' ! b) = frq_stream (heap c ! b) @ ys"
  proof (cases "b = a")
    case True
    with b s show ?thesis
      by (simp add: h)
  next
    case False
    then show ?thesis
      by (simp add: h)
  qed
qed

lemma streams_grow_same:
  assumes "heap c' = heap c"
  shows "streams_grow c c'"
  using assms by (simp add: streams_grow_def)

lemma streams_grow_append:
  assumes "heap c' = heap c @ rs"
  shows "streams_grow c c'"
  using assms by (simp add: streams_grow_def nth_append)

lemma aborted_all_grow:
  assumes "aborted_all K err c0 c'" "heap c0 = heap c"
  shows "streams_grow c c'"
  unfolding streams_grow_def
proof (intro conjI allI impI)
  show "length (heap c) \<le> length (heap c')"
    using assms by (simp add: aborted_all_def)
  fix b assume "b < length (heap c)"
  with assms have "heap c' ! b = aborted_request (Some err) (heap c ! b) \<or> heap c' ! b = heap c ! b"
    by (simp add: aborted_all_def)
  then show "\<exists>ys. frq_stream (heap c' ! b) = frq_stream (heap c ! b) @ ys"
    by (auto simp: aborted_request_def)
qed

lemma fatalError_grow:
  assumes i: "inv c"
  shows "streams_grow c (state_after (fatalError c err))"
proof (cases "fc_error c")
  case (Some e)
  then show ?thesis
    by (simp add: fatalError_later state_after_def streams_grow_same)
next
  case None
  show ?thesis
  proof (cases "error_listeners c = 0")
    case True
    with None show ?thesis
      by (simp add: fatalError_unheard state_after_def streams_grow_same)
  next
    case False
    from fatalError_first [OF i None False, of err] obtain c' where
      c': "fatalError c err = Inr c'"
        "aborted_all (fst ` set (fc_pending c)) err
           (c\<lparr>fc_nerrors := Suc (fc_nerrors c), fc_error := Some err,
              emitted := emitted c @ [err]\<rparr>) c'"
      by blast
    from c'(2) have "streams_grow c c'"
      by (rule aborted_all_grow) simp
    with c'(1) show ?thesis
      by (simp add: state_after_def)
  qed
qed

lemma onMessage_grow:
  assumes i: "inv c"
  shows "streams_grow c (state_after (onMessage c msg))"
proof (cases "map_of (fc_pending c) (msgid msg)")
  case (Some a)
  show ?thesis
  proof (cases msg)
    case (FP_STATUS_DATA m ds)
    with Some have p: "map_of (fc_pending c) m = Some a" by simp
    from onMessage_pending_DATA [OF i p, of ds] obtain ds' where
      e: "state_after (onMessage c (FP_STATUS_DATA m ds)) =
        c\<lparr>heap := (heap c)[a := (heap c ! a)
            \<lparr>frq_last := Some (FP_STATUS_DATA m ds),
             frq_ndata := Suc (frq_ndata (heap c ! a)),
             frq_stream := frq_stream (heap c ! a) @ map Data ds'\<rparr>]\<rparr>" ..
    show ?thesis
      unfolding FP_STATUS_DATA e
      by (rule streams_grow_update [where a = a and r' = "(heap c ! a)
            \<lparr>frq_last := Some (FP_STATUS_DATA m ds),
             frq_ndata := Suc (frq_ndata (heap c ! a)),
             frq_stream := frq_stream (heap c ! a) @ map Data ds'\<rparr>"]) simp_all
  next
    case (FP_STATUS_END m ds)
    with Some have p: "map_of (fc_pending c) m = Some a" by simp
    show ?thesis
      unfolding FP_STATUS_END onMessage_pending_END [OF i p] state_after_def
      by (rule streams_grow_update [where a = a and r' = "(heap c ! a)
            \<lparr>frq_last := Some (FP_STATUS_END m ds), frq_done_graceful := True,
             frq_stream := frq_stream (heap c ! a) @ [End]\<rparr>"]) simp_all
  next
    case (FP_STATUS_ERROR m d)
    with Some have p: "map_of (fc_pending c) m = Some a" by simp
    show ?thesis
      unfolding FP_STATUS_ERROR onMessage_pending_ERROR [OF i p] state_after_def
      by (rule streams_grow_update [where a = a and r' = "(heap c ! a)
            \<lparr>frq_last := Some (FP_STATUS_ERROR m d), frq_done_graceful := True,
             frq_error := Some (request_error (heap c ! a) (server_error (heap c ! a) d))\<rparr>"])
        simp_all
  qed
next
  case None
  show ?thesis
  proof (cases "map_of (fc_aborted c) (msgid msg)")
    case (Some a)
    show ?thesis
    proof (cases msg)
      case (FP_STATUS_DATA m ds)
      with None Some have p: "map_of (fc_pending c) m = None" "map_of (fc_aborted c) m = Some a"
        by simp_all
      show ?thesis
        unfolding FP_STATUS_DATA onMessage_aborted_DATA [OF i p] state_after_def
        by (rule streams_grow_update [where a = a and r' = "(heap c ! a)
            \<lparr>frq_last := Some (FP_STATUS_DATA m ds),
             frq_nignored := Suc (frq_nignored (heap c ! a))\<rparr>"]) simp_all
    next
      case (FP_STATUS_END m ds)
      with None Some have p: "map_of (fc_pending c) m = None" "map_of (fc_aborted c) m = Some a"
        by simp_all
      show ?thesis
        unfolding FP_STATUS_END onMessage_aborted_END [OF i p] state_after_def
        by (rule streams_grow_update [where a = a and r' = "(heap c ! a)
            \<lparr>frq_last := Some (FP_STATUS_END m ds)\<rparr>"]) simp_all
    next
      case (FP_STATUS_ERROR m d)
      with None Some have p: "map_of (fc_pending c) m = None" "map_of (fc_aborted c) m = Some a"
        by simp_all
      show ?thesis
        unfolding FP_STATUS_ERROR onMessage_aborted_ERROR [OF i p] state_after_def
        by (rule streams_grow_update [where a = a and r' = "(heap c ! a)
            \<lparr>frq_last := Some (FP_STATUS_ERROR m d),
             frq_nignored := Suc (frq_nignored (heap c ! a))\<rparr>"]) simp_all
    qed
  next
    case None': None
    from None None' have "onMessage c msg = fatalError c (unknown_msgid_error (msgid msg))"
      by (rule onMessage_unknown)
    with fatalError_grow [OF i] show ?thesis
      by simp
  qed
qed

lemma abort_grow:
  assumes i: "inv c" and a: "a < length (heap c)"
  shows "streams_grow c (state_after (abort c a))"
proof (cases "requestIsPending (heap c ! a)")
  case False
  then show ?thesis
    by (simp add: abort_def requestAbort_done state_after_def)
next
  case True
  with i a have "map_of (fc_pending c) (frq_msgid (heap c ! a)) = Some a"
    by (simp add: inv_def listed_ok_def)
  from requestAbort_eq [OF a True this, of None] show ?thesis
    unfolding abort_def state_after_def
    by (simp add: streams_grow_update [where a = a and r' = "aborted_request None (heap c ! a)"]
        aborted_request_def)
qed

lemma detach_grow: "streams_grow c (state_after (detach c))"
  by (rule streams_grow_same)
    (simp add: detach_def state_after_def throw_def removeListener_def
      fc_transport_onerror_def Let_def split: option.splits)

lemma run_immediate_grow: "streams_grow c (run_immediate c)"
proof (cases "immediates c")
  case Nil
  then show ?thesis
    by (simp add: run_immediate_def)
next
  case (Cons a rest)
  show ?thesis
    by (rule streams_grow_update [where a = a and r' = "(heap c ! a)
        \<lparr>frq_stream := frq_stream (heap c ! a) @ [Error (frq_error (heap c ! a))]\<rparr>"])
      (simp_all add: run_immediate_def update_request_def Cons)
qed

lemma rpc_grow:
  assumes i: "inv c"
  shows "streams_grow c (state_after (perform c (Rpc meth args)))"
proof -
  obtain m c1 where al: "allocMessageId c = (m, c1)"
    by (cases "allocMessageId c")
  then have c1: "c1 = c\<lparr>fc_msgid := m\<rparr>"
    by (auto simp: allocMessageId_def Let_def split: if_splits)
  have i1: "inv c1"
    using i unfolding c1 by (rule inv_frame) simp_all
  show ?thesis
  proof (cases "map_of (fc_pending c1) m")
    case (Some b)
    then show ?thesis
      using al c1
      by (simp add: perform_def rpc_def hasOwnProperty_def throw_def and_then_def
          state_after_def streams_grow_same)
  next
    case None
    define c4 where "c4 = c1\<lparr>heap := heap c1 @ [FastRpcRequest m meth args],
      fc_pending := AList.update m (length (heap c1)) (fc_pending c1),
      fc_nrpc_started := Suc (fc_nrpc_started c1)\<rparr>"
    have i4: "inv c4"
      using i1 None unfolding c4_def
      by (rule inv_new_request [where r = "FastRpcRequest m meth args" and m = m])
        (simp_all add: FastRpcRequest_def requestIsPending_def)
    have g4: "streams_grow c c4"
      by (rule streams_grow_append [where rs = "[FastRpcRequest m meth args]"])
        (simp add: c4_def c1)
    show ?thesis
    proof (cases "fc_detached c1 \<or> fc_transport_ended c1")
      case False
      have "rpc c meth args =
          Inr (c4\<lparr>written := written c4 @ [\<lparr>om_msgid = m, om_name = meth, om_d = args\<rparr>]\<rparr>,
               length (heap c1))"
        using al None False by (simp add: rpc_def hasOwnProperty_def c4_def Let_def)
      moreover have "streams_grow c
          (c4\<lparr>written := written c4 @ [\<lparr>om_msgid = m, om_name = meth, om_d = args\<rparr>]\<rparr>)"
        using g4 by (simp add: streams_grow_def)
      ultimately show ?thesis
        by (simp add: perform_def and_then_def state_after_def)
    next
      case True
      define a where "a = length (heap c1)"
      define c5 where "c5 = update_request a (\<lambda>r. r\<lparr>frq_skip := True\<rparr>) c4"
      have a4: "a < length (heap c4)"
        by (simp add: a_def c4_def)
      have i5: "inv c5"
        unfolding c5_def update_request_def
        by (rule inv_modify [OF i4 a4, where r' = "(heap c4 ! a)\<lparr>frq_skip := True\<rparr>"]) simp_all
      have g5: "streams_grow c4 c5"
        by (rule streams_grow_update [where a = a and r' = "(heap c4 ! a)\<lparr>frq_skip := True\<rparr>"])
          (simp_all add: c5_def update_request_def)
      have p5: "map_of (fc_pending c5) m = Some a"
        by (simp add: c5_def update_request_def c4_def a_def update_conv')
      note f5 = pending_facts [OF i5 p5]
      define c6 where "c6 = c5\<lparr>heap := (heap c5)[a := (heap c5 ! a)\<lparr>frq_error := Some
              (new_VError (Some (ve_name (new_VError (Some ''TransportError'') None [] ''transport detached'')))
                 (Some (new_VError (Some ''TransportError'') None [] ''transport detached''))
                 [(''rpcMsgid'', JNum (int (frq_msgid (heap c5 ! a)))),
                  (''rpcMethod'', JStr (frq_rpcmethod (heap c5 ! a)))] [])\<rparr>],
          fc_pending := AList.delete (frq_msgid (heap c5 ! a)) (fc_pending c5),
          fc_nrpc_done := Suc (fc_nrpc_done c5),
          fc_recentrpc := push_recent (fc_nrecent c5) (fc_recentrpc c5) a,
          immediates := immediates c5 @ [a]\<rparr>"
      have s6: "requestFail c5 a (new_VError (Some ''TransportError'') None [] ''transport detached'')
          = Inr c6"
        unfolding c6_def using f5(1,6) p5 f5(2) by (intro requestFail_eq) simp_all
      have g6: "streams_grow c5 c6"
        by (rule streams_grow_update [where a = a and r' = "heap c6 ! a"])
          (use f5(1) in \<open>simp_all add: c6_def list_update_same_conv\<close>)
      have "rpc c meth args = Inr (c6, a)"
        using al None True s6
        by (simp add: rpc_def hasOwnProperty_def Let_def and_then_def c5_def c4_def a_def)
      moreover have "streams_grow c c6"
        using g4 g5 g6 by (blast intro: streams_grow_trans)
      ultimately show ?thesis
        by (simp add: perform_def and_then_def state_after_def)
    qed
  qed
qed

lemma perform_grow:
  assumes i: "inv c" and ok: "allowed c act"
  shows "streams_grow c (state_after (perform c act))"
proof (cases act)
  case OnError
  then show ?thesis
    by (simp add: perform_def state_after_def streams_grow_same)
next
  case (Rpc meth args)
  with rpc_grow [OF i] show ?thesis by simp
next
  case (OnRequestError a)
  have "streams_grow c (c\<lparr>heap := (heap c)[a := (heap c ! a)
      \<lparr>rq_error_listeners := rq_error_listeners (heap c ! a) + 1\<rparr>]\<rparr>)"
    by (rule streams_grow_update [where a = a and r' = "(heap c ! a)
      \<lparr>rq_error_listeners := rq_error_listeners (heap c ! a) + 1\<rparr>"]) simp_all
  with OnRequestError show ?thesis
    by (simp add: perform_def state_after_def update_request_def)
next
  case (Abort a)
  with ok abort_grow [OF i, of a] show ?thesis
    by (simp add: perform_def)
next
  case Detach
  with detach_grow show ?thesis
    by (simp add: perform_def)
next
  case (Message msg)
  with onMessage_grow [OF i] show ?thesis
    by (simp add: perform_def)
next
  case (DecoderError e)
  with fatalError_grow [OF i] show ?thesis
    by (simp add: perform_def onDecoderError_def)
next
  case TransportEnd
  have 1: "inv (c\<lparr>fc_transport_ended := True\<rparr>)"
    using i by (rule inv_frame) simp_all
  have 2: "streams_grow c (c\<lparr>fc_transport_ended := True\<rparr>)"
    by (simp add: streams_grow_same)
  have "streams_grow c (state_after (onTransportEnd c))"
  proof (cases "fc_nrpc_done c < fc_nrpc_started c")
    case True
    from streams_grow_trans [OF 2 fatalError_grow [OF 1]] True show ?thesis
      by (simp add: onTransportEnd_def)
  next
    case False
    with 2 show ?thesis
      by (simp add: onTransportEnd_def state_after_def)
  qed
  with TransportEnd show ?thesis
    by (simp add: perform_def state_after_def)
next
  case (TransportError e)
  from fatalError_grow [OF i] have "streams_grow c (state_after (onTransportError c e))"
    by (simp add: onTransportError_def)
  with TransportError show ?thesis
    by (simp add: perform_def state_after_def)
next
  case Immediate
  with run_immediate_grow show ?thesis
    by (simp add: perform_def run_callback_state)
qed

lemma nothing_after_terminal:
  assumes "one_terminal_last xs" "no_terminal (xs @ ys) \<or> one_terminal_last (xs @ ys)"
  shows "ys = []"
proof (rule ccontr)
  assume ys: "ys \<noteq> []"
  from assms(1) have ne: "xs \<noteq> []" and t: "\<not> is_data (last xs)"
    by (simp_all add: one_terminal_last_def)
  from ne have "last xs \<in> set xs"
    by simp
  with t have nx: "\<not> list_all is_data xs"
    by (auto simp: list_all_iff)
  from assms(2) show False
  proof
    assume "no_terminal (xs @ ys)"
    with nx show False
      by (simp add: no_terminal_def)
  next
    assume "one_terminal_last (xs @ ys)"
    then have "list_all is_data (butlast (xs @ ys))"
      by (simp add: one_terminal_last_def)
    with ys nx show False
      by (simp add: butlast_append)
  qed
qed

lemma stream_shape:
  assumes i: "inv c" and a: "a < length (heap c)"
  shows "no_terminal (frq_stream (heap c ! a)) \<or> one_terminal_last (frq_stream (heap c ! a))"
proof -
  from i a have ok: "stream_ok c a"
    by (simp add: inv_def streams_ok_def)
  show ?thesis
  proof (cases "requestIsPending (heap c ! a)")
    case True
    with ok show ?thesis
      by (simp add: stream_ok_def)
  next
    case False
    with ok have "one_terminal_last (frq_stream (heap c ! a) @ scheduled c a)"
      by (simp add: stream_ok_def)
    then show ?thesis
      unfolding scheduled_def by (rule one_terminal_last_scheduled)
  qed
qed

section \<open>One terminal event on every request stream\<close>



lemma reach_ended_request: "reach ended_request"
  unfolding ended_request_def
  by (rule reach_run [OF reach_one_request]) simp

lemma ended_request_facts:
  "length (heap ended_request) = 1" "\<not> requestIsPending (heap ended_request ! 0)"
  "frq_stream (heap ended_request ! 0) = [Data (JStr ''string_0''), End]"
  "immediates ended_request = []"
  by (simp_all add: ended_request_def one_request_def test_setup_def state_after_def
      method_defs)


end
